theory Spec2Isabelle
  imports Main "HOL-Library.Word"
begin

section \<open>The text sink and the C library calls of writesrc.cpp\<close>

text \<open>
  \<^verbatim>\<open>writesrc.cpp\<close> writes generated source text to a \<^verbatim>\<open>FILE *f\<close> and reports problems on
  \<^verbatim>\<open>stderr\<close>. Both streams are modelled as the text written to them so far. Every
  function of the file takes the two streams and returns them with the new text appended.
\<close>

record io =
  file_f :: string
  file_stderr :: string

definition fputc :: "char \<Rightarrow> string \<Rightarrow> string" where
  "fputc c f = f @ [c]"

definition fputs :: "string \<Rightarrow> string \<Rightarrow> string" where
  "fputs s f = f @ s"

subsection \<open>Number conversions of printf\<close>

definition digit_char :: "int \<Rightarrow> char" where
  "digit_char d = (''0123456789abcdef'') ! nat d"

function dec_digits :: "int \<Rightarrow> string" where
  "dec_digits n = (if n < 10 then [digit_char n] else dec_digits (n div 10) @ [digit_char (n mod 10)])"
  by pat_completeness auto
termination
  by (relation "measure nat") auto

function hex_digits :: "int \<Rightarrow> string" where
  "hex_digits n = (if n < 16 then [digit_char n] else hex_digits (n div 16) @ [digit_char (n mod 16)])"
  by pat_completeness auto
termination
  by (relation "measure nat") auto

declare dec_digits.simps [simp del]

declare hex_digits.simps [simp del]

text \<open>Signed decimal, as \<^verbatim>\<open>%d\<close> and \<^verbatim>\<open>%ld\<close> print it.\<close>

definition dec_signed :: "int \<Rightarrow> string" where
  "dec_signed v = (if v < 0 then CHR ''-'' # dec_digits (- v) else dec_digits v)"

subsection \<open>Format strings\<close>

text \<open>
  An argument of a printf call is an integer (after C's default promotions and the casts
  written at the call) or a string. The conversions are the ones the file uses. The
  data model is LP64, the one of the platforms the tool is built on: \<^verbatim>\<open>long\<close> and
  \<^verbatim>\<open>int64_t\<close> have 64 bits, so \<^verbatim>\<open>PRId64\<close> is \<^verbatim>\<open>ld\<close> and \<^verbatim>\<open>PRIx64\<close> is \<^verbatim>\<open>lx\<close>; \<^verbatim>\<open>int\<close> has
  32 bits.
\<close>

datatype c_arg = I int | S string

datatype conv = Conv_ld | Conv_lx | Conv_d | Conv_u | Conv_x | Conv_hx | Conv_c | Conv_s

text \<open>
  \<open>directive r\<close> reads the conversion that follows a percent sign: the conversion and the
  rest of the format, or \<open>None\<close> when the characters are none of the conversions above.
\<close>

fun directive :: "string \<Rightarrow> (conv \<times> string) option" where
  "directive (a # b # r) =
     (if a = CHR ''l'' \<and> b = CHR ''d'' then Some (Conv_ld, r)
      else if a = CHR ''l'' \<and> b = CHR ''x'' then Some (Conv_lx, r)
      else if a = CHR ''h'' \<and> b = CHR ''x'' then Some (Conv_hx, r)
      else if a = CHR ''d'' then Some (Conv_d, b # r)
      else if a = CHR ''u'' then Some (Conv_u, b # r)
      else if a = CHR ''x'' then Some (Conv_x, b # r)
      else if a = CHR ''c'' then Some (Conv_c, b # r)
      else if a = CHR ''s'' then Some (Conv_s, b # r)
      else None)"
| "directive [a] =
     (if a = CHR ''d'' then Some (Conv_d, [])
      else if a = CHR ''u'' then Some (Conv_u, [])
      else if a = CHR ''x'' then Some (Conv_x, [])
      else if a = CHR ''c'' then Some (Conv_c, [])
      else if a = CHR ''s'' then Some (Conv_s, [])
      else None)"
| "directive [] = None"

text \<open>
  The text one conversion prints for one argument. The unsigned conversions print the
  argument's two's complement bit pattern at the width of the conversion. An argument of
  the wrong kind is undefined behaviour in C; the model prints nothing for it.
\<close>

fun render :: "conv \<Rightarrow> c_arg \<Rightarrow> string" where
  "render Conv_ld (I v) = dec_signed v"
| "render Conv_d (I v) = dec_signed v"
| "render Conv_lx (I v) = hex_digits (v mod 2 ^ 64)"
| "render Conv_x (I v) = hex_digits (v mod 2 ^ 32)"
| "render Conv_hx (I v) = hex_digits (v mod 2 ^ 16)"
| "render Conv_u (I v) = dec_digits (v mod 2 ^ 32)"
| "render Conv_c (I v) = [char_of (v mod 256)]"
| "render Conv_s (S s) = s"
| "render _ _ = []"

lemma directive_shorter: "directive r = Some (cv, r') \<Longrightarrow> length r' < length r"
  by (cases r rule: directive.cases) (auto split: if_splits)

text \<open>
  \<open>c_format fmt args\<close> is the text \<^verbatim>\<open>fprintf(f, fmt, args...)\<close> appends. Ordinary characters
  are copied, \<^verbatim>\<open>%%\<close> prints a percent sign, a conversion prints the next argument. A percent
  sign followed by anything else, and a conversion with no argument left, are undefined
  behaviour in C: the model copies the percent sign and goes on. No call of the file's
  own format strings reaches those two cases.
\<close>

function c_format :: "string \<Rightarrow> c_arg list \<Rightarrow> string" where
  "c_format [] args = []"
| "c_format (c # r) args =
     (if c \<noteq> CHR ''%'' then c # c_format r args
      else (case r of
              [] \<Rightarrow> [c]
            | d # r1 \<Rightarrow>
                if d = CHR ''%'' then CHR ''%'' # c_format r1 args
                else (case directive r of
                        None \<Rightarrow> c # c_format r args
                      | Some (cv, r2) \<Rightarrow>
                          (case args of
                             [] \<Rightarrow> c # c_format r args
                           | a # rest \<Rightarrow> render cv a @ c_format r2 rest))))"
  by pat_completeness auto
termination
  by (relation "measure (\<lambda>(fmt, args). length fmt)") (auto dest: directive_shorter)

definition fprintf :: "string \<Rightarrow> string \<Rightarrow> c_arg list \<Rightarrow> string" where
  "fprintf f fmt args = f @ c_format fmt args"

section \<open>Memory read through a pointer\<close>

text \<open>
  \<^verbatim>\<open>usrc_writeArray\<close> receives a \<^verbatim>\<open>const void *p\<close> and casts it to one of four element types.
  A pointer is modelled as the memory it points to, as each of the four casts reads it:
  \<open>u8_at p i\<close> is \<^verbatim>\<open>((const uint8_t *)p)[i]\<close>, and so on. How the four views of the same
  bytes relate (byte order) is not modelled. The file never checks that the storage holds
  \<^verbatim>\<open>length\<close> elements, which is the caller's obligation; the views are total.
\<close>

record mem =
  u8_at :: "nat \<Rightarrow> 8 word"
  u16_at :: "nat \<Rightarrow> 16 word"
  u32_at :: "nat \<Rightarrow> 32 word"
  i64_at :: "nat \<Rightarrow> 64 word"

section \<open>usrc_writeArray\<close>

text \<open>
  The loop variables of \<^verbatim>\<open>for(i=col=0; i<length; ++i, ++col)\<close> and the stream. \<^verbatim>\<open>width\<close> and
  \<^verbatim>\<open>length\<close> are \<^verbatim>\<open>int32_t\<close> parameters, modelled as integers; the counters stay between
  0 and \<^verbatim>\<open>length\<close>, so none of them overflows.
\<close>

record wa_state =
  wa_i :: nat
  wa_col :: nat
  wa_f :: string

text \<open>The second \<^verbatim>\<open>switch(width)\<close>: the element read into the signed 64-bit \<^verbatim>\<open>value\<close>.\<close>

definition wa_value :: "mem \<Rightarrow> int \<Rightarrow> nat \<Rightarrow> int" where
  "wa_value p width i =
     (if width = 8 then uint (u8_at p i)
      else if width = 16 then uint (u16_at p i)
      else if width = 32 then uint (u32_at p i)
      else if width = 64 then sint (i64_at p i)
      else 0)"

text \<open>\<^verbatim>\<open>fprintf(f, value<=9 ? "%" PRId64 : "0x%" PRIx64, value)\<close>.\<close>

definition wa_element :: "int \<Rightarrow> string" where
  "wa_element v = c_format (if v \<le> 9 then ''%ld'' else ''0x%lx'') [I v]"

text \<open>One pass through the loop body, with the increments \<^verbatim>\<open>++i, ++col\<close>.\<close>

definition wa_body :: "mem \<Rightarrow> int \<Rightarrow> string \<Rightarrow> wa_state \<Rightarrow> wa_state" where
  "wa_body p width indent st =
     (let (col, f) =
            (if 0 < wa_i st then
               (if wa_col st < 16 then (wa_col st, fputc CHR '','' (wa_f st))
                else (0, fputs indent (fputs '',\<newline>'' (wa_f st))))
             else (wa_col st, wa_f st));
          v = wa_value p width (wa_i st);
          f = f @ wa_element v
      in \<lparr>wa_i = wa_i st + 1, wa_col = col + 1, wa_f = f\<rparr>)"

function wa_loop :: "mem \<Rightarrow> int \<Rightarrow> int \<Rightarrow> string \<Rightarrow> wa_state \<Rightarrow> wa_state" where
  "wa_loop p width len indent st =
     (if int (wa_i st) < len then wa_loop p width len indent (wa_body p width indent st)
      else st)"
  by pat_completeness auto
termination
  by (relation "measure (\<lambda>(p, width, len, indent, st). nat (len - int (wa_i st)))")
     (auto simp: wa_body_def Let_def split: prod.splits)

declare wa_loop.simps [simp del]

text \<open>
  The function: the first \<^verbatim>\<open>switch(width)\<close> returns after the message on an unrecognized
  width; otherwise the prefix (a format with the length as its argument), the loop and
  the postfix. A null \<^verbatim>\<open>prefix\<close> or \<^verbatim>\<open>postfix\<close> is \<open>None\<close>.
\<close>

definition usrc_writeArray ::
  "io \<Rightarrow> string option \<Rightarrow> mem \<Rightarrow> int \<Rightarrow> int \<Rightarrow> string \<Rightarrow> string option \<Rightarrow> io" where
  "usrc_writeArray s prefix p width len indent postfix =
     (if width \<noteq> 8 \<and> width \<noteq> 16 \<and> width \<noteq> 32 \<and> width \<noteq> 64 then
        s\<lparr>file_stderr :=
            fprintf (file_stderr s) ''usrc_writeArray(width=%ld) unrecognized width\<newline>'' [I width]\<rparr>
      else
        (let f = file_f s;
             f = (case prefix of None \<Rightarrow> f | Some fmt \<Rightarrow> fprintf f fmt [I len]);
             f = wa_f (wa_loop p width len indent \<lparr>wa_i = 0, wa_col = 0, wa_f = f\<rparr>);
             f = (case postfix of None \<Rightarrow> f | Some t \<Rightarrow> fputs t f)
         in s\<lparr>file_f := f\<rparr>))"

section \<open>Aborting paths\<close>

text \<open>
  Modelled from the spec: the macros \<^verbatim>\<open>UPRV_UNREACHABLE_EXIT\<close> and \<^verbatim>\<open>U_ASSERT\<close>, which are
  not defined in the sources at hand. The spec calls an unsupported syntax value a fatal
  precondition violation on which the implementation aborts, and a violated iteration
  contract asserted, not recovered. So \<^verbatim>\<open>UPRV_UNREACHABLE_EXIT\<close> ends the process, and
  \<^verbatim>\<open>U_ASSERT(e)\<close> ends it when \<^verbatim>\<open>e\<close> is false in a build with assertions (\<^verbatim>\<open>U_DEBUG\<close>) and
  does nothing in a build without. A function that can end the process returns
  \<open>Returned s\<close> with the streams after the call, or \<open>Aborted s\<close> with the streams as they
  were when the process was aborted. The build flag is the parameter \<open>U_DEBUG\<close> of the
  functions that assert. The message an assertion prints is not modelled.
\<close>

datatype outcome = Returned io | Aborted io

text \<open>
  Modelled from the spec: \<^verbatim>\<open>UTargetSyntax\<close>, declared in \<^verbatim>\<open>writesrc.h\<close>, which is not among the
  sources. The spec has two syntaxes, the source-array one (\<^verbatim>\<open>UPRV_TARGET_SYNTAX_CCODE\<close>) and
  the structured-config one (\<^verbatim>\<open>UPRV_TARGET_SYNTAX_TOML\<close>), and speaks of a third value
  other than the two. A C enumeration can hold other values of its underlying integer
  type, which is what the \<^verbatim>\<open>default:\<close> branches of the file are for;
  \<open>UTargetSyntax_other n\<close> stands for them.
\<close>

datatype UTargetSyntax =
  UPRV_TARGET_SYNTAX_CCODE | UPRV_TARGET_SYNTAX_TOML | UTargetSyntax_other int

section \<open>The code point trie\<close>

text \<open>
  Modelled from the spec: \<^verbatim>\<open>struct UCPTrie\<close>, declared in \<^verbatim>\<open>ucptrie.h\<close>, which is not among the
  sources. The fields are the ones the spec lists and the file reads, with the widths the
  casts and conversions of the file go with: \<^verbatim>\<open>int32_t\<close> lengths, \<^verbatim>\<open>highStart\<close> (a \<^verbatim>\<open>UChar32\<close>)
  and \<^verbatim>\<open>dataNullOffset\<close>, \<^verbatim>\<open>int8_t\<close> \<^verbatim>\<open>type\<close> and \<^verbatim>\<open>valueWidth\<close>, \<^verbatim>\<open>uint16_t\<close>
  \<^verbatim>\<open>shifted12HighStart\<close> and \<^verbatim>\<open>index3NullOffset\<close>, \<^verbatim>\<open>uint32_t\<close> \<^verbatim>\<open>nullValue\<close>. Signed fields are
  read with \<open>sint\<close>, unsigned ones with \<open>uint\<close>.
\<close>

record UCPTrie =
  index :: mem
  data_ptr0 :: mem
  indexLength :: "32 word"
  dataLength :: "32 word"
  highStart :: "32 word"
  shifted12HighStart :: "16 word"
  type :: "8 word"
  valueWidth :: "8 word"
  index3NullOffset :: "16 word"
  dataNullOffset :: "32 word"
  nullValue :: "32 word"

text \<open>
  Modelled from the spec: the enumerators of \<^verbatim>\<open>UCPTrieValueWidth\<close>, declared in \<^verbatim>\<open>ucptrie.h\<close>,
  which is not among the sources. The spec fixes that there are three supported value
  width tags, for 16, 32 and 8 bits; the numbers are the ones of ICU's header.
\<close>

definition UCPTRIE_VALUE_BITS_16 :: "8 word" where "UCPTRIE_VALUE_BITS_16 = 0"

definition UCPTRIE_VALUE_BITS_32 :: "8 word" where "UCPTRIE_VALUE_BITS_32 = 1"

definition UCPTRIE_VALUE_BITS_8 :: "8 word" where "UCPTRIE_VALUE_BITS_8 = 2"

text \<open>The conditional expression that both trie functions use for \<^verbatim>\<open>width\<close>.\<close>

definition ucptrie_width :: "UCPTrie \<Rightarrow> int" where
  "ucptrie_width pTrie =
     (if valueWidth pTrie = UCPTRIE_VALUE_BITS_16 then 16
      else if valueWidth pTrie = UCPTRIE_VALUE_BITS_32 then 32
      else if valueWidth pTrie = UCPTRIE_VALUE_BITS_8 then 8
      else 0)"

definition usrc_writeUCPTrieArrays ::
  "io \<Rightarrow> string option \<Rightarrow> string option \<Rightarrow> UCPTrie \<Rightarrow> string option \<Rightarrow> UTargetSyntax \<Rightarrow> io" where
  "usrc_writeUCPTrieArrays s indexPrefix dataPrefix pTrie postfix syntax =
     (let indent = (if syntax = UPRV_TARGET_SYNTAX_TOML then ''  '' else []);
          s = usrc_writeArray s indexPrefix (index pTrie) 16 (sint (indexLength pTrie)) indent postfix;
          width = ucptrie_width pTrie
      in usrc_writeArray s dataPrefix (data_ptr0 pTrie) width (sint (dataLength pTrie)) indent postfix)"

text \<open>The two patterns of \<^verbatim>\<open>usrc_writeUCPTrieStruct\<close>, line by line as in the source.\<close>

definition ucptrie_pattern_ccode :: string where
  "ucptrie_pattern_ccode =
     ''    %ld, %ld,\<newline>'' @
     ''    0x%lx, 0x%x,\<newline>'' @
     ''    %d, %d,\<newline>'' @
     ''    0, 0,\<newline>'' @
     ''    0x%x, 0x%lx,\<newline>'' @
     ''    0x%lx,\<newline>''"

definition ucptrie_pattern_toml :: string where
  "ucptrie_pattern_toml =
     ''indexLength = %ld\<newline>'' @
     ''dataLength = %ld\<newline>'' @
     ''highStart = 0x%lx\<newline>'' @
     ''shifted12HighStart = 0x%x\<newline>'' @
     ''type = %d\<newline>'' @
     ''valueWidth = %d\<newline>'' @
     ''index3NullOffset = 0x%x\<newline>'' @
     ''dataNullOffset = 0x%lx\<newline>'' @
     ''nullValue = 0x%lx\<newline>''"

text \<open>The argument list of the one \<^verbatim>\<open>fprintf(f, pattern, ...)\<close> call, with its casts.\<close>

definition ucptrie_struct_args :: "UCPTrie \<Rightarrow> c_arg list" where
  "ucptrie_struct_args pTrie =
     [I (sint (indexLength pTrie)), I (sint (dataLength pTrie)),
      I (sint (highStart pTrie)), I (uint (shifted12HighStart pTrie)),
      I (sint (type pTrie)), I (sint (valueWidth pTrie)),
      I (uint (index3NullOffset pTrie)), I (sint (dataNullOffset pTrie)),
      I (uint (nullValue pTrie))]"

definition usrc_writeUCPTrieStruct ::
  "io \<Rightarrow> string option \<Rightarrow> UCPTrie \<Rightarrow> string \<Rightarrow> string \<Rightarrow> string option \<Rightarrow> UTargetSyntax \<Rightarrow> io" where
  "usrc_writeUCPTrieStruct s prefix pTrie indexName dataName postfix syntax =
     (let f = file_f s;
          f = (case prefix of None \<Rightarrow> f | Some t \<Rightarrow> fputs t f);
          f = (if syntax = UPRV_TARGET_SYNTAX_CCODE then
                 fprintf f (''    %s,\<newline>'' @ ''    { %s },\<newline>'') [S indexName, S dataName]
               else f);
          pattern = (if syntax = UPRV_TARGET_SYNTAX_CCODE then ucptrie_pattern_ccode
                     else ucptrie_pattern_toml);
          f = fprintf f pattern (ucptrie_struct_args pTrie);
          f = (case postfix of None \<Rightarrow> f | Some t \<Rightarrow> fputs t f)
      in s\<lparr>file_f := f\<rparr>)"

text \<open>
  \<^verbatim>\<open>snprintf(line, sizeof(line), fmt, ...)\<close> into a \<^verbatim>\<open>char line[100]\<close>: at most 99 characters of
  the formatted text are kept.
\<close>

definition snprintf100 :: "string \<Rightarrow> c_arg list \<Rightarrow> string" where
  "snprintf100 fmt args = take 99 (c_format fmt args)"

text \<open>
  \<^verbatim>\<open>usrc_writeUCPTrie\<close>: each of the two \<^verbatim>\<open>switch (syntax)\<close> statements fills the line buffers
  or, in its \<^verbatim>\<open>default:\<close> branch, aborts.
\<close>

definition usrc_writeUCPTrie :: "io \<Rightarrow> string \<Rightarrow> UCPTrie \<Rightarrow> UTargetSyntax \<Rightarrow> outcome" where
  "usrc_writeUCPTrie s name pTrie syntax =
     (let width = ucptrie_width pTrie in
      case (case syntax of
              UPRV_TARGET_SYNTAX_CCODE \<Rightarrow>
                Some (snprintf100 ''static const uint16_t %s_trieIndex[%%ld]={\<newline>'' [S name],
                      snprintf100 ''static const uint%d_t %s_trieData[%%ld]={\<newline>'' [I width, S name],
                      snprintf100 ''\<newline>};\<newline>\<newline>'' [])
            | UPRV_TARGET_SYNTAX_TOML \<Rightarrow>
                Some (snprintf100 ''index = [\<newline>  '' [],
                      snprintf100 ''data_%d = [\<newline>  '' [I width],
                      snprintf100 ''\<newline>]\<newline>'' [])
            | UTargetSyntax_other n \<Rightarrow> None) of
        None \<Rightarrow> Aborted s
      | Some (line, line2, line3) \<Rightarrow>
          (let s = usrc_writeUCPTrieArrays s (Some line) (Some line2) pTrie (Some line3) syntax in
           case (case syntax of
                   UPRV_TARGET_SYNTAX_CCODE \<Rightarrow>
                     Some (snprintf100 ''static const UCPTrie %s_trie={\<newline>'' [S name],
                           snprintf100 ''%s_trieIndex'' [S name],
                           snprintf100 ''%s_trieData'' [S name],
                           snprintf100 ''};\<newline>\<newline>'' [])
                 | UPRV_TARGET_SYNTAX_TOML \<Rightarrow> Some ([], [], [], [])
                 | UTargetSyntax_other n \<Rightarrow> None) of
             None \<Rightarrow> Aborted s
           | Some (line, line2, line3, line4) \<Rightarrow>
               Returned (usrc_writeUCPTrieStruct s (Some line) pTrie line2 line3 (Some line4) syntax)))"

section \<open>Facts about the format interpreter\<close>

lemma c_format_plain: "c \<noteq> CHR ''%'' \<Longrightarrow> c_format (c # r) args = c # c_format r args"
  by simp

lemma c_format_percent: "c_format (CHR ''%'' # CHR ''%'' # r) args = CHR ''%'' # c_format r args"
  by simp

lemma c_format_ld:
  "c_format (CHR ''%'' # CHR ''l'' # CHR ''d'' # r) (a # args) = render Conv_ld a @ c_format r args"
  by simp

lemma c_format_lx:
  "c_format (CHR ''%'' # CHR ''l'' # CHR ''x'' # r) (a # args) = render Conv_lx a @ c_format r args"
  by simp

lemma c_format_d:
  "c_format (CHR ''%'' # CHR ''d'' # r) (a # args) = render Conv_d a @ c_format r args"
  by (cases r) simp_all

lemma c_format_u:
  "c_format (CHR ''%'' # CHR ''u'' # r) (a # args) = render Conv_u a @ c_format r args"
  by (cases r) simp_all

lemma c_format_x:
  "c_format (CHR ''%'' # CHR ''x'' # r) (a # args) = render Conv_x a @ c_format r args"
  by (cases r) simp_all

lemma c_format_c:
  "c_format (CHR ''%'' # CHR ''c'' # r) (a # args) = render Conv_c a @ c_format r args"
  by (cases r) simp_all

lemma c_format_s:
  "c_format (CHR ''%'' # CHR ''s'' # r) (a # args) = render Conv_s a @ c_format r args"
  by (cases r) simp_all

lemmas c_format_lit =
  c_format_plain c_format_percent c_format_ld c_format_lx c_format_d c_format_u c_format_x
  c_format_c c_format_s

declare c_format.simps(2) [simp del]

section \<open>Unrecognized element widths\<close>

lemma wa_width_message:
  "c_format ''usrc_writeArray(width=%ld) unrecognized width\<newline>'' [I width] =
   ''usrc_writeArray(width='' @ dec_signed width @ '') unrecognized width\<newline>''"
  by (simp add: c_format_lit)

lemma usrc_writeArray_bad_width:
  assumes "width \<noteq> 8" "width \<noteq> 16" "width \<noteq> 32" "width \<noteq> 64"
  shows "usrc_writeArray s prefix p width len indent postfix =
         s\<lparr>file_stderr := file_stderr s @
             ''usrc_writeArray(width='' @ dec_signed width @ '') unrecognized width\<newline>''\<rparr>"
  using assms by (simp add: usrc_writeArray_def fprintf_def wa_width_message)

lemma usrc_writeArray_stderr:
  "width = 8 \<or> width = 16 \<or> width = 32 \<or> width = 64 \<Longrightarrow>
   file_stderr (usrc_writeArray s prefix p width len indent postfix) = file_stderr s"
  by (auto simp: usrc_writeArray_def Let_def)

lemma ucptrie_width_0:
  assumes "valueWidth pTrie \<noteq> UCPTRIE_VALUE_BITS_16" "valueWidth pTrie \<noteq> UCPTRIE_VALUE_BITS_32"
    "valueWidth pTrie \<noteq> UCPTRIE_VALUE_BITS_8"
  shows "ucptrie_width pTrie = 0"
  using assms by (simp add: ucptrie_width_def)

lemma dec_signed_0: "dec_signed 0 = ''0''"
  by (simp add: dec_signed_def dec_digits.simps digit_char_def)

lemma usrc_writeUCPTrieArrays_bad_tag:
  assumes "ucptrie_width pTrie = 0"
  shows "usrc_writeUCPTrieArrays s indexPrefix dataPrefix pTrie postfix syntax =
         (usrc_writeArray s indexPrefix (index pTrie) 16 (sint (indexLength pTrie))
            (if syntax = UPRV_TARGET_SYNTAX_TOML then ''  '' else []) postfix)
         \<lparr>file_stderr := file_stderr s @ ''usrc_writeArray(width=0) unrecognized width\<newline>''\<rparr>"
  using assms
  by (simp add: usrc_writeUCPTrieArrays_def Let_def usrc_writeArray_bad_width
      usrc_writeArray_stderr dec_signed_0)

text \<open>
  Claim C5. A call of \<^verbatim>\<open>usrc_writeArray\<close> with a width other than 8, 16, 32 and 64 appends
  the message to the diagnostic stream and leaves the sink as it was: neither the prefix,
  nor an element, nor the postfix is written. A trie whose value width tag is none of the
  three supported ones gives width 0; then \<^verbatim>\<open>usrc_writeUCPTrieArrays\<close> writes the index
  array, skips the data array with the message, and returns; and \<^verbatim>\<open>usrc_writeUCPTrie\<close>
  goes on to write the struct after it, under both syntaxes.
\<close>

theorem unrecognized_width_skips_write:
  "(width \<noteq> 8 \<and> width \<noteq> 16 \<and> width \<noteq> 32 \<and> width \<noteq> 64 \<longrightarrow>
      usrc_writeArray s prefix p width len indent postfix =
        s\<lparr>file_stderr := file_stderr s @
            ''usrc_writeArray(width='' @ dec_signed width @ '') unrecognized width\<newline>''\<rparr>) \<and>
   (valueWidth pTrie \<noteq> UCPTRIE_VALUE_BITS_16 \<and> valueWidth pTrie \<noteq> UCPTRIE_VALUE_BITS_32 \<and>
    valueWidth pTrie \<noteq> UCPTRIE_VALUE_BITS_8 \<longrightarrow>
      ucptrie_width pTrie = 0 \<and>
      usrc_writeUCPTrieArrays s indexPrefix dataPrefix pTrie postfix syntax =
        (usrc_writeArray s indexPrefix (index pTrie) 16 (sint (indexLength pTrie))
           (if syntax = UPRV_TARGET_SYNTAX_TOML then ''  '' else []) postfix)
        \<lparr>file_stderr := file_stderr s @ ''usrc_writeArray(width=0) unrecognized width\<newline>''\<rparr> \<and>
      usrc_writeUCPTrie s name pTrie UPRV_TARGET_SYNTAX_TOML =
        Returned (usrc_writeUCPTrieStruct
          ((usrc_writeArray s (Some ''index = [\<newline>  '') (index pTrie) 16
              (sint (indexLength pTrie)) ''  '' (Some ''\<newline>]\<newline>''))
           \<lparr>file_stderr := file_stderr s @ ''usrc_writeArray(width=0) unrecognized width\<newline>''\<rparr>)
          (Some []) pTrie [] [] (Some []) UPRV_TARGET_SYNTAX_TOML) \<and>
      usrc_writeUCPTrie s name pTrie UPRV_TARGET_SYNTAX_CCODE =
        Returned (usrc_writeUCPTrieStruct
          ((usrc_writeArray s
              (Some (snprintf100 ''static const uint16_t %s_trieIndex[%%ld]={\<newline>'' [S name]))
              (index pTrie) 16 (sint (indexLength pTrie)) []
              (Some ''\<newline>};\<newline>\<newline>''))
           \<lparr>file_stderr := file_stderr s @ ''usrc_writeArray(width=0) unrecognized width\<newline>''\<rparr>)
          (Some (snprintf100 ''static const UCPTrie %s_trie={\<newline>'' [S name])) pTrie
          (snprintf100 ''%s_trieIndex'' [S name]) (snprintf100 ''%s_trieData'' [S name])
          (Some ''};\<newline>\<newline>'') UPRV_TARGET_SYNTAX_CCODE))"
proof (intro conjI impI)
  assume "width \<noteq> 8 \<and> width \<noteq> 16 \<and> width \<noteq> 32 \<and> width \<noteq> 64"
  then show "usrc_writeArray s prefix p width len indent postfix =
        s\<lparr>file_stderr := file_stderr s @
            ''usrc_writeArray(width='' @ dec_signed width @ '') unrecognized width\<newline>''\<rparr>"
    by (simp add: usrc_writeArray_bad_width)
next
  assume tag: "valueWidth pTrie \<noteq> UCPTRIE_VALUE_BITS_16 \<and> valueWidth pTrie \<noteq> UCPTRIE_VALUE_BITS_32 \<and>
    valueWidth pTrie \<noteq> UCPTRIE_VALUE_BITS_8"
  then show w0: "ucptrie_width pTrie = 0"
    by (simp add: ucptrie_width_0)
  show "usrc_writeUCPTrieArrays s indexPrefix dataPrefix pTrie postfix syntax =
        (usrc_writeArray s indexPrefix (index pTrie) 16 (sint (indexLength pTrie))
           (if syntax = UPRV_TARGET_SYNTAX_TOML then ''  '' else []) postfix)
        \<lparr>file_stderr := file_stderr s @ ''usrc_writeArray(width=0) unrecognized width\<newline>''\<rparr>"
    by (rule usrc_writeUCPTrieArrays_bad_tag [OF w0])
  show "usrc_writeUCPTrie s name pTrie UPRV_TARGET_SYNTAX_TOML =
        Returned (usrc_writeUCPTrieStruct
          ((usrc_writeArray s (Some ''index = [\<newline>  '') (index pTrie) 16
              (sint (indexLength pTrie)) ''  '' (Some ''\<newline>]\<newline>''))
           \<lparr>file_stderr := file_stderr s @ ''usrc_writeArray(width=0) unrecognized width\<newline>''\<rparr>)
          (Some []) pTrie [] [] (Some []) UPRV_TARGET_SYNTAX_TOML)"
    by (simp add: usrc_writeUCPTrie_def Let_def usrc_writeUCPTrieArrays_bad_tag [OF w0]
        snprintf100_def c_format_lit)
  show "usrc_writeUCPTrie s name pTrie UPRV_TARGET_SYNTAX_CCODE =
        Returned (usrc_writeUCPTrieStruct
          ((usrc_writeArray s
              (Some (snprintf100 ''static const uint16_t %s_trieIndex[%%ld]={\<newline>'' [S name]))
              (index pTrie) 16 (sint (indexLength pTrie)) []
              (Some ''\<newline>};\<newline>\<newline>''))
           \<lparr>file_stderr := file_stderr s @ ''usrc_writeArray(width=0) unrecognized width\<newline>''\<rparr>)
          (Some (snprintf100 ''static const UCPTrie %s_trie={\<newline>'' [S name])) pTrie
          (snprintf100 ''%s_trieIndex'' [S name]) (snprintf100 ''%s_trieData'' [S name])
          (Some ''};\<newline>\<newline>'') UPRV_TARGET_SYNTAX_CCODE)"
    by (simp add: usrc_writeUCPTrie_def Let_def usrc_writeUCPTrieArrays_bad_tag [OF w0]
        c_format_lit
        snprintf100_def [of "''\<newline>};\<newline>\<newline>''"] snprintf100_def [of "''};\<newline>\<newline>''"])
qed

text \<open>Sample inputs for the closed instances below.\<close>

definition sample_mem :: mem where
  "sample_mem =
     \<lparr>u8_at = (\<lambda>i. of_nat i), u16_at = (\<lambda>i. of_nat (3 * i)), u32_at = (\<lambda>i. 7),
      i64_at = (\<lambda>i. if i = 0 then - 1 else 12)\<rparr>"

definition sample_trie :: UCPTrie where
  "sample_trie =
     \<lparr>index = sample_mem, data_ptr0 = sample_mem, indexLength = 3, dataLength = 2,
      highStart = 0x110000, shifted12HighStart = 0x110, type = 0, valueWidth = 2,
      index3NullOffset = 0x7fff, dataNullOffset = 0xfffff, nullValue = 0xffffffff\<rparr>"

theorem unrecognized_width_skips_write_witness:
  "usrc_writeArray \<lparr>file_f = ''x'', file_stderr = []\<rparr> (Some ''a[%ld]={'') sample_mem 24 3 []
      (Some ''};'') =
     \<lparr>file_f = ''x'', file_stderr = ''usrc_writeArray(width=24) unrecognized width\<newline>''\<rparr> \<and>
   usrc_writeUCPTrie \<lparr>file_f = [], file_stderr = []\<rparr> ''t'' (sample_trie\<lparr>valueWidth := 5\<rparr>)
      UPRV_TARGET_SYNTAX_TOML =
     Returned
      \<lparr>file_f = ''index = [\<newline>  0,3,6\<newline>]\<newline>'' @
         ''indexLength = 3\<newline>dataLength = 2\<newline>highStart = 0x110000\<newline>'' @
         ''shifted12HighStart = 0x110\<newline>type = 0\<newline>valueWidth = 5\<newline>'' @
         ''index3NullOffset = 0x7fff\<newline>dataNullOffset = 0xfffff\<newline>nullValue = 0xffffffff\<newline>'',
       file_stderr = ''usrc_writeArray(width=0) unrecognized width\<newline>''\<rparr>"
proof -
  let ?s = "\<lparr>file_f = ''x'', file_stderr = []\<rparr>"
  let ?t = "sample_trie\<lparr>valueWidth := 5\<rparr>"
  note inst = unrecognized_width_skips_write
    [where width = 24 and s = ?s and prefix = "Some ''a[%ld]={''" and p = sample_mem and len = 3
       and indent = "[]" and postfix = "Some ''};''" and pTrie = ?t]
  have tag: "valueWidth ?t \<noteq> UCPTRIE_VALUE_BITS_16 \<and> valueWidth ?t \<noteq> UCPTRIE_VALUE_BITS_32 \<and>
      valueWidth ?t \<noteq> UCPTRIE_VALUE_BITS_8"
    by (simp add: UCPTRIE_VALUE_BITS_16_def UCPTRIE_VALUE_BITS_32_def UCPTRIE_VALUE_BITS_8_def)
  have "usrc_writeArray ?s (Some ''a[%ld]={'') sample_mem 24 3 [] (Some ''};'') =
        ?s\<lparr>file_stderr := file_stderr ?s @
            ''usrc_writeArray(width='' @ dec_signed 24 @ '') unrecognized width\<newline>''\<rparr>"
    using inst by simp
  moreover have "dec_signed 24 = ''24''"
    by code_simp
  moreover have "ucptrie_width ?t = 0"
    using inst tag by blast
  moreover have "usrc_writeUCPTrie \<lparr>file_f = [], file_stderr = []\<rparr> ''t'' ?t UPRV_TARGET_SYNTAX_TOML =
     Returned
      \<lparr>file_f = ''index = [\<newline>  0,3,6\<newline>]\<newline>'' @
         ''indexLength = 3\<newline>dataLength = 2\<newline>highStart = 0x110000\<newline>'' @
         ''shifted12HighStart = 0x110\<newline>type = 0\<newline>valueWidth = 5\<newline>'' @
         ''index3NullOffset = 0x7fff\<newline>dataNullOffset = 0xfffff\<newline>nullValue = 0xffffffff\<newline>'',
       file_stderr = ''usrc_writeArray(width=0) unrecognized width\<newline>''\<rparr>"
    by code_simp
  ultimately show ?thesis
    by simp
qed

section \<open>The struct of the code point trie under the two syntaxes\<close>

text \<open>
  The texts of the nine scalar fields, in the order of the arguments of the \<^verbatim>\<open>fprintf\<close> call:
  \<^verbatim>\<open>indexLength\<close>, \<^verbatim>\<open>dataLength\<close>, \<^verbatim>\<open>highStart\<close>, \<^verbatim>\<open>shifted12HighStart\<close>, \<^verbatim>\<open>type\<close>, \<^verbatim>\<open>valueWidth\<close>,
  \<^verbatim>\<open>index3NullOffset\<close>, \<^verbatim>\<open>dataNullOffset\<close>, \<^verbatim>\<open>nullValue\<close>. Lengths, type and value width are
  decimal; the others are the hexadecimal digits that follow the \<^verbatim>\<open>0x\<close> of the pattern (a
  negative \<^verbatim>\<open>long\<close> prints as its 64-bit two's complement).
\<close>

definition ucptrie_scalar_texts :: "UCPTrie \<Rightarrow> string list" where
  "ucptrie_scalar_texts pTrie =
     [dec_signed (sint (indexLength pTrie)),
      dec_signed (sint (dataLength pTrie)),
      hex_digits (sint (highStart pTrie) mod 2 ^ 64),
      hex_digits (uint (shifted12HighStart pTrie)),
      dec_signed (sint (type pTrie)),
      dec_signed (sint (valueWidth pTrie)),
      hex_digits (uint (index3NullOffset pTrie)),
      hex_digits (sint (dataNullOffset pTrie) mod 2 ^ 64),
      hex_digits (uint (nullValue pTrie))]"

lemma uint16_mod32: "uint (w :: 16 word) mod 4294967296 = uint w"
proof -
  have "uint w < 2 ^ 16"
    using uint_lt2p [of w] by simp
  then have "uint w < 4294967296"
    by simp
  then show ?thesis
    by (simp add: mod_pos_pos_trivial)
qed

lemma uint32_mod64: "uint (w :: 32 word) mod 18446744073709551616 = uint w"
proof -
  have "uint w < 2 ^ 32"
    using uint_lt2p [of w] by simp
  then have "uint w < 18446744073709551616"
    by simp
  then show ?thesis
    by (simp add: mod_pos_pos_trivial)
qed

lemma ucptrie_struct_ccode_text:
  "c_format ucptrie_pattern_ccode (ucptrie_struct_args pTrie) =
     ''    '' @ dec_signed (sint (indexLength pTrie)) @ '', '' @
       dec_signed (sint (dataLength pTrie)) @ '',\<newline>'' @
     ''    0x'' @ hex_digits (sint (highStart pTrie) mod 2 ^ 64) @ '', 0x'' @
       hex_digits (uint (shifted12HighStart pTrie)) @ '',\<newline>'' @
     ''    '' @ dec_signed (sint (type pTrie)) @ '', '' @
       dec_signed (sint (valueWidth pTrie)) @ '',\<newline>'' @
     ''    0, 0,\<newline>'' @
     ''    0x'' @ hex_digits (uint (index3NullOffset pTrie)) @ '', 0x'' @
       hex_digits (sint (dataNullOffset pTrie) mod 2 ^ 64) @ '',\<newline>'' @
     ''    0x'' @ hex_digits (uint (nullValue pTrie)) @ '',\<newline>''"
  by (simp add: ucptrie_pattern_ccode_def ucptrie_struct_args_def c_format_lit
      uint16_mod32 uint32_mod64)

lemma ucptrie_struct_toml_text:
  "c_format ucptrie_pattern_toml (ucptrie_struct_args pTrie) =
     ''indexLength = '' @ dec_signed (sint (indexLength pTrie)) @ ''\<newline>'' @
     ''dataLength = '' @ dec_signed (sint (dataLength pTrie)) @ ''\<newline>'' @
     ''highStart = 0x'' @ hex_digits (sint (highStart pTrie) mod 2 ^ 64) @ ''\<newline>'' @
     ''shifted12HighStart = 0x'' @ hex_digits (uint (shifted12HighStart pTrie)) @ ''\<newline>'' @
     ''type = '' @ dec_signed (sint (type pTrie)) @ ''\<newline>'' @
     ''valueWidth = '' @ dec_signed (sint (valueWidth pTrie)) @ ''\<newline>'' @
     ''index3NullOffset = 0x'' @ hex_digits (uint (index3NullOffset pTrie)) @ ''\<newline>'' @
     ''dataNullOffset = 0x'' @ hex_digits (sint (dataNullOffset pTrie) mod 2 ^ 64) @ ''\<newline>'' @
     ''nullValue = 0x'' @ hex_digits (uint (nullValue pTrie)) @ ''\<newline>''"
  by (simp add: ucptrie_pattern_toml_def ucptrie_struct_args_def c_format_lit
      uint16_mod32 uint32_mod64)

text \<open>
  Claim C7. Under both syntaxes \<^verbatim>\<open>usrc_writeUCPTrieStruct\<close> writes the texts of the same nine
  scalar fields, in the same order: \<^verbatim>\<open>indexLength\<close>, \<^verbatim>\<open>dataLength\<close>, \<^verbatim>\<open>highStart\<close>,
  \<^verbatim>\<open>shifted12HighStart\<close>, \<^verbatim>\<open>type\<close>, \<^verbatim>\<open>valueWidth\<close>, \<^verbatim>\<open>index3NullOffset\<close>, \<^verbatim>\<open>dataNullOffset\<close>,
  \<^verbatim>\<open>nullValue\<close>. Only the fixed text around them differs: the source-array syntax writes
  the two array references first and separates the values by commas (with the constant
  \<^verbatim>\<open>0, 0,\<close> line of the two reserved fields); the structured-config syntax writes one
  \<^verbatim>\<open>key = value\<close> line per field.
\<close>

theorem ucptrie_struct_same_scalar_fields:
  "\<exists>v1 v2 v3 v4 v5 v6 v7 v8 v9.
     ucptrie_scalar_texts pTrie = [v1, v2, v3, v4, v5, v6, v7, v8, v9] \<and>
     file_f (usrc_writeUCPTrieStruct s prefix pTrie indexName dataName postfix
               UPRV_TARGET_SYNTAX_CCODE) =
       file_f s @ (case prefix of None \<Rightarrow> [] | Some t \<Rightarrow> t) @
       ''    '' @ indexName @ '',\<newline>'' @ ''    { '' @ dataName @ '' },\<newline>'' @
       ''    '' @ v1 @ '', '' @ v2 @ '',\<newline>'' @
       ''    0x'' @ v3 @ '', 0x'' @ v4 @ '',\<newline>'' @
       ''    '' @ v5 @ '', '' @ v6 @ '',\<newline>'' @
       ''    0, 0,\<newline>'' @
       ''    0x'' @ v7 @ '', 0x'' @ v8 @ '',\<newline>'' @
       ''    0x'' @ v9 @ '',\<newline>'' @
       (case postfix of None \<Rightarrow> [] | Some t \<Rightarrow> t) \<and>
     file_f (usrc_writeUCPTrieStruct s prefix pTrie indexName dataName postfix
               UPRV_TARGET_SYNTAX_TOML) =
       file_f s @ (case prefix of None \<Rightarrow> [] | Some t \<Rightarrow> t) @
       ''indexLength = '' @ v1 @ ''\<newline>'' @
       ''dataLength = '' @ v2 @ ''\<newline>'' @
       ''highStart = 0x'' @ v3 @ ''\<newline>'' @
       ''shifted12HighStart = 0x'' @ v4 @ ''\<newline>'' @
       ''type = '' @ v5 @ ''\<newline>'' @
       ''valueWidth = '' @ v6 @ ''\<newline>'' @
       ''index3NullOffset = 0x'' @ v7 @ ''\<newline>'' @
       ''dataNullOffset = 0x'' @ v8 @ ''\<newline>'' @
       ''nullValue = 0x'' @ v9 @ ''\<newline>'' @
       (case postfix of None \<Rightarrow> [] | Some t \<Rightarrow> t)"
proof -
  have c: "file_f (usrc_writeUCPTrieStruct s prefix pTrie indexName dataName postfix
               UPRV_TARGET_SYNTAX_CCODE) =
       file_f s @ (case prefix of None \<Rightarrow> [] | Some t \<Rightarrow> t) @
       ''    '' @ indexName @ '',\<newline>'' @ ''    { '' @ dataName @ '' },\<newline>'' @
       c_format ucptrie_pattern_ccode (ucptrie_struct_args pTrie) @
       (case postfix of None \<Rightarrow> [] | Some t \<Rightarrow> t)"
    by (simp add: usrc_writeUCPTrieStruct_def Let_def fprintf_def fputs_def c_format_lit
        split: option.splits)
  have t: "file_f (usrc_writeUCPTrieStruct s prefix pTrie indexName dataName postfix
               UPRV_TARGET_SYNTAX_TOML) =
       file_f s @ (case prefix of None \<Rightarrow> [] | Some t \<Rightarrow> t) @
       c_format ucptrie_pattern_toml (ucptrie_struct_args pTrie) @
       (case postfix of None \<Rightarrow> [] | Some t \<Rightarrow> t)"
    by (simp add: usrc_writeUCPTrieStruct_def Let_def fprintf_def fputs_def
        split: option.splits)
  show ?thesis
    unfolding c t ucptrie_struct_ccode_text ucptrie_struct_toml_text ucptrie_scalar_texts_def
    by (intro exI conjI) (rule refl, simp, simp)
qed

section \<open>A third syntax value\<close>

text \<open>
  Claim C6, as it stands, fails on the two lower entry points. \<^verbatim>\<open>usrc_writeUCPTrieStruct\<close>
  compares the syntax with \<^verbatim>\<open>UPRV_TARGET_SYNTAX_CCODE\<close> only, and
  \<^verbatim>\<open>usrc_writeUCPTrieArrays\<close> with \<^verbatim>\<open>UPRV_TARGET_SYNTAX_TOML\<close> only: called with a third value
  they return after writing a rendering, here the \<^verbatim>\<open>key = value\<close> lines of the struct and
  the two arrays.
\<close>

theorem third_syntax_tolerated_counterexample:
  "usrc_writeUCPTrieStruct \<lparr>file_f = [], file_stderr = []\<rparr> None sample_trie ''a'' ''b'' None
      (UTargetSyntax_other 2) =
     \<lparr>file_f = ''indexLength = 3\<newline>dataLength = 2\<newline>highStart = 0x110000\<newline>'' @
        ''shifted12HighStart = 0x110\<newline>type = 0\<newline>valueWidth = 2\<newline>'' @
        ''index3NullOffset = 0x7fff\<newline>dataNullOffset = 0xfffff\<newline>nullValue = 0xffffffff\<newline>'',
      file_stderr = []\<rparr> \<and>
   usrc_writeUCPTrieArrays \<lparr>file_f = [], file_stderr = []\<rparr> (Some ''i[%ld]={'') (Some ''d[%ld]={'')
      sample_trie (Some ''};'') (UTargetSyntax_other 2) =
     \<lparr>file_f = ''i[3]={0,3,6};d[2]={0,1};'', file_stderr = []\<rparr>"
  by code_simp

text \<open>
  Claim C6, amended. The abort path belongs to \<^verbatim>\<open>usrc_writeUCPTrie\<close>: with a third syntax
  value its first \<^verbatim>\<open>switch\<close> aborts before anything is written, so neither the arrays nor
  the struct are rendered. The two lower entry points have no such check: for a third
  value \<^verbatim>\<open>usrc_writeUCPTrieArrays\<close> does what it does for the source-array syntax, and
  \<^verbatim>\<open>usrc_writeUCPTrieStruct\<close> what it does for the structured-config syntax.
\<close>

theorem third_syntax_aborts_at_top_level:
  "usrc_writeUCPTrie s name pTrie (UTargetSyntax_other n) = Aborted s \<and>
   usrc_writeUCPTrieArrays s indexPrefix dataPrefix pTrie postfix (UTargetSyntax_other n) =
     usrc_writeUCPTrieArrays s indexPrefix dataPrefix pTrie postfix UPRV_TARGET_SYNTAX_CCODE \<and>
   usrc_writeUCPTrieStruct s prefix pTrie indexName dataName postfix (UTargetSyntax_other n) =
     usrc_writeUCPTrieStruct s prefix pTrie indexName dataName postfix UPRV_TARGET_SYNTAX_TOML"
  by (simp add: usrc_writeUCPTrie_def usrc_writeUCPTrieArrays_def usrc_writeUCPTrieStruct_def)

section \<open>The loop of usrc_writeArray\<close>

text \<open>
  \<open>wa_run p width indent f k\<close> is the state at the head of the loop after \<open>k\<close> passes, from
  \<^verbatim>\<open>i=col=0\<close> and the stream \<open>f\<close>. \<open>wa_sep indent i\<close> is what stands before element \<open>i\<close>:
  nothing before the first, a comma, a newline and the indent before every sixteenth,
  a comma otherwise.
\<close>

definition wa_run :: "mem \<Rightarrow> int \<Rightarrow> string \<Rightarrow> string \<Rightarrow> nat \<Rightarrow> wa_state" where
  "wa_run p width indent f k = (wa_body p width indent ^^ k) \<lparr>wa_i = 0, wa_col = 0, wa_f = f\<rparr>"

definition wa_sep :: "string \<Rightarrow> nat \<Rightarrow> string" where
  "wa_sep indent i = (if i = 0 then [] else if i mod 16 = 0 then '',\<newline>'' @ indent else '','')"

definition wa_text :: "mem \<Rightarrow> int \<Rightarrow> string \<Rightarrow> nat \<Rightarrow> string" where
  "wa_text p width indent k =
     concat (map (\<lambda>i. wa_sep indent i @ wa_element (wa_value p width i)) [0..<k])"

lemma wa_body_step:
  "wa_body p width indent \<lparr>wa_i = k, wa_col = c, wa_f = f\<rparr> =
     \<lparr>wa_i = Suc k,
      wa_col = (if 0 < k \<and> \<not> c < 16 then 0 else c) + 1,
      wa_f = f @ (if 0 < k then (if c < 16 then '','' else '',\<newline>'' @ indent) else []) @
               wa_element (wa_value p width k)\<rparr>"
  by (simp add: wa_body_def fputc_def fputs_def Let_def)

lemma wa_run_0: "wa_run p width indent f 0 = \<lparr>wa_i = 0, wa_col = 0, wa_f = f\<rparr>"
  by (simp add: wa_run_def)

lemma wa_run_Suc: "wa_run p width indent f (Suc k) = wa_body p width indent (wa_run p width indent f k)"
  by (simp add: wa_run_def)

lemma wa_text_Suc:
  "wa_text p width indent (Suc k) =
     wa_text p width indent k @ wa_sep indent k @ wa_element (wa_value p width k)"
  by (simp add: wa_text_def)

lemma wa_run_state_Suc:
  "wa_run p width indent f (Suc j) =
     \<lparr>wa_i = Suc j, wa_col = j mod 16 + 1, wa_f = f @ wa_text p width indent (Suc j)\<rparr>"
proof (induction j)
  case 0
  show ?case
    by (simp add: wa_run_Suc wa_run_0 wa_body_step wa_text_def wa_sep_def)
next
  case (Suc j)
  have lt: "j mod 16 < 16"
    by simp
  show ?case
  proof (cases "Suc (j mod 16) = 16")
    case True
    then have m: "Suc j mod 16 = 0"
      by (simp add: mod_Suc)
    have c: "\<not> j mod 16 + 1 < 16"
      using True by simp
    have "wa_run p width indent f (Suc (Suc j)) =
          wa_body p width indent
            \<lparr>wa_i = Suc j, wa_col = j mod 16 + 1, wa_f = f @ wa_text p width indent (Suc j)\<rparr>"
      by (simp only: wa_run_Suc [of _ _ _ _ "Suc j"] Suc.IH)
    also have "\<dots> = \<lparr>wa_i = Suc (Suc j), wa_col = 0 + 1,
                 wa_f = (f @ wa_text p width indent (Suc j)) @ ('',\<newline>'' @ indent) @
                        wa_element (wa_value p width (Suc j))\<rparr>"
      unfolding wa_body_step using c by simp
    also have "\<dots> = \<lparr>wa_i = Suc (Suc j), wa_col = Suc j mod 16 + 1,
                 wa_f = f @ wa_text p width indent (Suc (Suc j))\<rparr>"
      unfolding wa_text_Suc [of _ _ _ "Suc j"] using m by (simp add: wa_sep_def)
    finally show ?thesis .
  next
    case False
    then have m: "Suc j mod 16 = Suc (j mod 16)"
      by (simp add: mod_Suc)
    have c: "j mod 16 + 1 < 16"
      using False lt by simp
    have "wa_run p width indent f (Suc (Suc j)) =
          wa_body p width indent
            \<lparr>wa_i = Suc j, wa_col = j mod 16 + 1, wa_f = f @ wa_text p width indent (Suc j)\<rparr>"
      by (simp only: wa_run_Suc [of _ _ _ _ "Suc j"] Suc.IH)
    also have "\<dots> = \<lparr>wa_i = Suc (Suc j), wa_col = (j mod 16 + 1) + 1,
                 wa_f = (f @ wa_text p width indent (Suc j)) @ '','' @
                        wa_element (wa_value p width (Suc j))\<rparr>"
      unfolding wa_body_step using c by simp
    also have "\<dots> = \<lparr>wa_i = Suc (Suc j), wa_col = Suc j mod 16 + 1,
                 wa_f = f @ wa_text p width indent (Suc (Suc j))\<rparr>"
      unfolding wa_text_Suc [of _ _ _ "Suc j"] using m by (simp add: wa_sep_def)
    finally show ?thesis .
  qed
qed

lemma wa_run_state:
  "wa_run p width indent f k =
     \<lparr>wa_i = k, wa_col = (if k = 0 then 0 else (k - 1) mod 16 + 1),
      wa_f = f @ wa_text p width indent k\<rparr>"
proof (cases k)
  case 0
  then show ?thesis
    by (simp add: wa_run_0 wa_text_def)
next
  case (Suc j)
  then show ?thesis
    by (simp add: wa_run_state_Suc)
qed

lemma wa_loop_run:
  "int k \<le> len \<Longrightarrow>
   wa_loop p width len indent (wa_run p width indent f k) = wa_run p width indent f (nat len)"
proof (induction "nat len - k" arbitrary: k)
  case 0
  then have "nat len = k"
    by simp
  moreover have "wa_i (wa_run p width indent f k) = k"
    by (simp add: wa_run_state)
  ultimately show ?case
    using 0 by (subst wa_loop.simps) simp
next
  case (Suc d)
  then have lt: "int k < len"
    by simp
  have i: "wa_i (wa_run p width indent f k) = k"
    by (simp add: wa_run_state)
  have "wa_loop p width len indent (wa_run p width indent f k) =
        wa_loop p width len indent (wa_run p width indent f (Suc k))"
    using lt i by (subst wa_loop.simps) (simp add: wa_run_Suc)
  also have "\<dots> = wa_run p width indent f (nat len)"
    using Suc lt by (intro Suc.hyps(1)) auto
  finally show ?case .
qed

lemma wa_loop_nonpos:
  "len \<le> 0 \<Longrightarrow> wa_loop p width len indent \<lparr>wa_i = 0, wa_col = 0, wa_f = f\<rparr> =
     \<lparr>wa_i = 0, wa_col = 0, wa_f = f\<rparr>"
  by (subst wa_loop.simps) simp

lemma wa_loop_text:
  "wa_f (wa_loop p width len indent \<lparr>wa_i = 0, wa_col = 0, wa_f = f\<rparr>) =
     f @ wa_text p width indent (nat len)"
proof (cases "0 \<le> len")
  case True
  then have "int 0 \<le> len"
    by simp
  then have "wa_loop p width len indent (wa_run p width indent f 0) =
             wa_run p width indent f (nat len)"
    by (rule wa_loop_run)
  then have "wa_loop p width len indent \<lparr>wa_i = 0, wa_col = 0, wa_f = f\<rparr> =
             wa_run p width indent f (nat len)"
    by (simp only: wa_run_0)
  then show ?thesis
    by (simp add: wa_run_state)
next
  case False
  then show ?thesis
    by (simp add: wa_loop_nonpos wa_text_def)
qed

text \<open>The whole output of a call with a recognized width.\<close>

lemma usrc_writeArray_text:
  assumes "width = 8 \<or> width = 16 \<or> width = 32 \<or> width = 64"
  shows "usrc_writeArray s prefix p width len indent postfix =
         s\<lparr>file_f := file_f s @
              (case prefix of None \<Rightarrow> [] | Some fmt \<Rightarrow> c_format fmt [I len]) @
              wa_text p width indent (nat len) @
              (case postfix of None \<Rightarrow> [] | Some t \<Rightarrow> t)\<rparr>"
proof -
  have w: "\<not> (width \<noteq> 8 \<and> width \<noteq> 16 \<and> width \<noteq> 32 \<and> width \<noteq> 64)"
    using assms by blast
  show ?thesis
    unfolding usrc_writeArray_def if_not_P [OF w] Let_def wa_loop_text fprintf_def fputs_def
    by (cases prefix; cases postfix) simp_all
qed

section \<open>The text of one array element\<close>

lemma digit_char_hex: "d < 16 \<Longrightarrow> digit_char d \<in> set ''0123456789abcdef''"
proof -
  assume "d < 16"
  then have "nat d < length ''0123456789abcdef''"
    by simp
  then have "''0123456789abcdef'' ! nat d \<in> set ''0123456789abcdef''"
    by (rule nth_mem)
  then show ?thesis
    by (simp only: digit_char_def)
qed

lemma dec_digits_chars: "set (dec_digits n) \<subseteq> set ''0123456789abcdef''"
proof (induction n rule: dec_digits.induct)
  case (1 n)
  show ?case
  proof (cases "n < 10")
    case True
    then have "digit_char n \<in> set ''0123456789abcdef''"
      by (intro digit_char_hex) simp
    with True show ?thesis
      by (subst dec_digits.simps) simp
  next
    case False
    have "digit_char (n mod 10) \<in> set ''0123456789abcdef''"
      by (intro digit_char_hex) simp
    with False "1.IH" show ?thesis
      by (subst dec_digits.simps) simp
  qed
qed

lemma hex_digits_chars: "set (hex_digits n) \<subseteq> set ''0123456789abcdef''"
proof (induction n rule: hex_digits.induct)
  case (1 n)
  show ?case
  proof (cases "n < 16")
    case True
    then have "digit_char n \<in> set ''0123456789abcdef''"
      by (rule digit_char_hex)
    with True show ?thesis
      by (subst hex_digits.simps) simp
  next
    case False
    have "digit_char (n mod 16) \<in> set ''0123456789abcdef''"
      by (intro digit_char_hex) simp
    with False "1.IH" show ?thesis
      by (subst hex_digits.simps) simp
  qed
qed

lemma wa_element_small: "v \<le> 9 \<Longrightarrow> wa_element v = dec_signed v"
  by (simp add: wa_element_def c_format_lit)

lemma wa_element_large: "9 < v \<Longrightarrow> wa_element v = ''0x'' @ hex_digits (v mod 2 ^ 64)"
  by (simp add: wa_element_def c_format_lit)

lemma wa_element_digit: "0 \<le> v \<Longrightarrow> v \<le> 9 \<Longrightarrow> wa_element v = [digit_char v]"
  by (simp add: wa_element_small dec_signed_def dec_digits.simps)

lemma wa_element_negative: "v < 0 \<Longrightarrow> wa_element v = CHR ''-'' # dec_digits (- v)"
  by (simp add: wa_element_small dec_signed_def)

lemma dec_digits_no_char:
  "c \<notin> set ''0123456789abcdef'' \<Longrightarrow> c \<notin> set (dec_digits n)"
  using dec_digits_chars [of n] by blast

lemma hex_digits_no_char:
  "c \<notin> set ''0123456789abcdef'' \<Longrightarrow> c \<notin> set (hex_digits n)"
  using hex_digits_chars [of n] by blast

lemma wa_element_no_char:
  assumes "c \<notin> set ''0123456789abcdef''" "c \<noteq> CHR ''x''" "c \<noteq> CHR ''-''"
  shows "c \<notin> set (wa_element v)"
proof (cases "v \<le> 9")
  case True
  show ?thesis
    unfolding wa_element_small [OF True] dec_signed_def
    using assms dec_digits_no_char [OF assms(1), of v] dec_digits_no_char [OF assms(1), of "- v"]
    by (cases "v < 0") simp_all
next
  case False
  then have "9 < v"
    by simp
  then show ?thesis
    unfolding wa_element_large [OF \<open>9 < v\<close>]
    using assms hex_digits_no_char [OF assms(1), of "v mod 2 ^ 64"]
    by simp
qed

lemma wa_element_no_comma: "count_list (wa_element v) CHR '','' = 0"
  by (intro count_notin wa_element_no_char) simp_all

lemma wa_element_no_newline: "count_list (wa_element v) CHR ''\<newline>'' = 0"
  by (intro count_notin wa_element_no_char) simp_all

text \<open>The range of the value read, by width.\<close>

lemma wa_value_range:
  assumes "width = 8 \<or> width = 16 \<or> width = 32 \<or> width = 64"
  shows "- (2 ^ 63) \<le> wa_value p width i \<and> wa_value p width i < 2 ^ 63 \<and>
         (width \<noteq> 64 \<longrightarrow> 0 \<le> wa_value p width i)"
proof -
  have "uint (u8_at p i) < 2 ^ 8" "uint (u16_at p i) < 2 ^ 16" "uint (u32_at p i) < 2 ^ 32"
    using uint_lt2p [of "u8_at p i"] uint_lt2p [of "u16_at p i"] uint_lt2p [of "u32_at p i"]
    by simp_all
  moreover have "- (2 ^ 63) \<le> uint (u8_at p i)" "- (2 ^ 63) \<le> uint (u16_at p i)"
    "- (2 ^ 63) \<le> uint (u32_at p i)"
    by (rule order_trans [of _ 0], simp, simp)+
  moreover have "- (2 ^ 63) \<le> sint (i64_at p i)" "sint (i64_at p i) < 2 ^ 63"
    using sint_ge [of "i64_at p i"] sint_lt [of "i64_at p i"] by simp_all
  ultimately show ?thesis
    using assms by (auto simp: wa_value_def)
qed

section \<open>Counting separators\<close>

lemma wa_sep_comma:
  "CHR '','' \<notin> set indent \<Longrightarrow> count_list (wa_sep indent i) CHR '','' = (if i = 0 then 0 else 1)"
  by (simp add: wa_sep_def count_notin)

lemma wa_sep_newline:
  "CHR ''\<newline>'' \<notin> set indent \<Longrightarrow>
   count_list (wa_sep indent i) CHR ''\<newline>'' = (if i \<noteq> 0 \<and> i mod 16 = 0 then 1 else 0)"
  by (simp add: wa_sep_def count_notin)

lemma wa_text_commas:
  assumes "CHR '','' \<notin> set indent"
  shows "count_list (wa_text p width indent k) CHR '','' = k - 1"
proof (induction k)
  case 0
  show ?case
    by (simp add: wa_text_def)
next
  case (Suc k)
  show ?case
    unfolding wa_text_Suc count_list_append Suc.IH wa_sep_comma [OF assms] wa_element_no_comma
    by simp
qed

lemma wa_text_newlines_Suc:
  assumes "CHR ''\<newline>'' \<notin> set indent"
  shows "count_list (wa_text p width indent (Suc j)) CHR ''\<newline>'' = j div 16"
proof (induction j)
  case 0
  show ?case
    unfolding wa_text_Suc count_list_append wa_sep_newline [OF assms] wa_element_no_newline
    by (simp add: wa_text_def)
next
  case (Suc j)
  have "count_list (wa_text p width indent (Suc (Suc j))) CHR ''\<newline>'' =
        j div 16 + (if Suc j mod 16 = 0 then 1 else 0)"
    unfolding wa_text_Suc [of _ _ _ "Suc j"] count_list_append Suc.IH
      wa_sep_newline [OF assms] wa_element_no_newline
    by simp
  also have "\<dots> = Suc j div 16"
    by (simp add: div_Suc)
  finally show ?case .
qed

lemma wa_text_newlines:
  assumes "CHR ''\<newline>'' \<notin> set indent" "0 < k"
  shows "count_list (wa_text p width indent k) CHR ''\<newline>'' = (k + 15) div 16 - 1"
proof -
  obtain j where k: "k = Suc j"
    using assms(2) by (cases k) auto
  have "(Suc j + 15) div 16 = j div 16 + 1"
    by simp
  then show ?thesis
    unfolding k wa_text_newlines_Suc [OF assms(1)] by simp
qed

lemma wa_text_first:
  "0 < k \<Longrightarrow> \<exists>rest. wa_text p width indent k = wa_element (wa_value p width 0) @ rest"
proof (induction k)
  case 0
  then show ?case
    by simp
next
  case (Suc k)
  show ?case
  proof (cases "k = 0")
    case True
    then show ?thesis
      by (simp add: wa_text_def wa_sep_def)
  next
    case False
    with Suc.IH obtain rest where "wa_text p width indent k = wa_element (wa_value p width 0) @ rest"
      by auto
    then show ?thesis
      unfolding wa_text_Suc by simp
  qed
qed

lemma wa_loop_is_run:
  "0 \<le> len \<Longrightarrow>
   wa_loop p width len indent \<lparr>wa_i = 0, wa_col = 0, wa_f = f\<rparr> = wa_run p width indent f (nat len)"
  using wa_loop_run [of 0 len p width indent f] by (simp only: wa_run_0)

text \<open>
  Claim C1. For a recognized width and \<open>N > 0\<close> elements, what \<^verbatim>\<open>usrc_writeArray\<close> writes
  between the prefix and the postfix is the elements, each after its separator: nothing
  before the first element, a comma, a newline and the indent before every sixteenth
  element, a comma before any other. For an indent with neither a comma nor a newline
  in it (the callers pass spaces or nothing) this text has exactly \<open>ceil(N/16) - 1\<close>
  newlines and \<open>N - 1\<close> commas, and it starts with the first element. The column counter
  is \<open>k mod 16 + 1\<close> after the pass for element \<open>k\<close>: it restarts from zero at every wrap,
  and the loop ends in the state after \<open>N\<close> passes.
\<close>

theorem array_wrap_and_comma_counts:
  assumes "width = 8 \<or> width = 16 \<or> width = 32 \<or> width = 64"
    and "0 < len"
    and "CHR '','' \<notin> set indent" and "CHR ''\<newline>'' \<notin> set indent"
  shows "\<exists>body rest.
           file_f (usrc_writeArray s prefix p width len indent postfix) =
             file_f s @ (case prefix of None \<Rightarrow> [] | Some fmt \<Rightarrow> c_format fmt [I len]) @ body @
             (case postfix of None \<Rightarrow> [] | Some t \<Rightarrow> t) \<and>
           body = concat (map (\<lambda>i. (if i = 0 then [] else if i mod 16 = 0 then '',\<newline>'' @ indent
                                     else '','') @ wa_element (wa_value p width i)) [0..<nat len]) \<and>
           count_list body CHR ''\<newline>'' = (nat len + 15) div 16 - 1 \<and>
           count_list body CHR '','' = nat len - 1 \<and>
           body = wa_element (wa_value p width 0) @ rest \<and>
           wa_loop p width len indent \<lparr>wa_i = 0, wa_col = 0, wa_f = f\<rparr> =
             wa_run p width indent f (nat len) \<and>
           (\<forall>k. wa_col (wa_run p width indent f (Suc k)) = k mod 16 + 1)"
proof -
  let ?body = "wa_text p width indent (nat len)"
  have n: "0 < nat len"
    using assms(2) by simp
  obtain rest where first: "?body = wa_element (wa_value p width 0) @ rest"
    using wa_text_first [OF n] by blast
  have out: "file_f (usrc_writeArray s prefix p width len indent postfix) =
             file_f s @ (case prefix of None \<Rightarrow> [] | Some fmt \<Rightarrow> c_format fmt [I len]) @ ?body @
             (case postfix of None \<Rightarrow> [] | Some t \<Rightarrow> t)"
    by (simp add: usrc_writeArray_text [OF assms(1)])
  have body: "?body = concat (map (\<lambda>i. (if i = 0 then [] else if i mod 16 = 0 then '',\<newline>'' @ indent
                                     else '','') @ wa_element (wa_value p width i)) [0..<nat len])"
    by (simp add: wa_text_def wa_sep_def)
  have nl: "count_list ?body CHR ''\<newline>'' = (nat len + 15) div 16 - 1"
    by (rule wa_text_newlines [OF assms(4) n])
  have cm: "count_list ?body CHR '','' = nat len - 1"
    by (rule wa_text_commas [OF assms(3)])
  have run: "wa_loop p width len indent \<lparr>wa_i = 0, wa_col = 0, wa_f = f\<rparr> =
             wa_run p width indent f (nat len)"
    using assms(2) by (intro wa_loop_is_run) simp
  have col: "\<forall>k. wa_col (wa_run p width indent f (Suc k)) = k mod 16 + 1"
    by (simp add: wa_run_state_Suc)
  from out body nl cm first run col show ?thesis
    by blast
qed

theorem array_wrap_and_comma_counts_witness:
  "file_f (usrc_writeArray \<lparr>file_f = [], file_stderr = []\<rparr> (Some ''x[%ld]={'') sample_mem 16 18
             ''  '' (Some ''};'')) =
     ''x[18]={'' @ ''0,3,6,9,0xc,0xf,0x12,0x15,0x18,0x1b,0x1e,0x21,0x24,0x27,0x2a,0x2d,\<newline>'' @
     ''  0x30,0x33'' @ ''};'' \<and>
   count_list (''0,3,6,9,0xc,0xf,0x12,0x15,0x18,0x1b,0x1e,0x21,0x24,0x27,0x2a,0x2d,\<newline>'' @
     ''  0x30,0x33'') CHR ''\<newline>'' = 1 \<and>
   count_list (''0,3,6,9,0xc,0xf,0x12,0x15,0x18,0x1b,0x1e,0x21,0x24,0x27,0x2a,0x2d,\<newline>'' @
     ''  0x30,0x33'') CHR '','' = 17"
proof -
  have w: "(16::int) = 8 \<or> (16::int) = 16 \<or> (16::int) = 32 \<or> (16::int) = 64"
    by simp
  have i: "CHR '','' \<notin> set ''  ''" "CHR ''\<newline>'' \<notin> set ''  ''"
    by simp_all
  obtain body rest where
    out: "file_f (usrc_writeArray \<lparr>file_f = [], file_stderr = []\<rparr> (Some ''x[%ld]={'') sample_mem
            16 18 ''  '' (Some ''};'')) =
          file_f \<lparr>file_f = [], file_stderr = []\<rparr> @
          (case Some ''x[%ld]={'' of None \<Rightarrow> [] | Some fmt \<Rightarrow> c_format fmt [I 18]) @ body @
          (case Some ''};'' of None \<Rightarrow> [] | Some t \<Rightarrow> t)"
    and body: "body = concat (map (\<lambda>i. (if i = 0 then [] else if i mod 16 = 0 then '',\<newline>'' @ ''  ''
                 else '','') @ wa_element (wa_value sample_mem 16 i)) [0..<nat 18])"
    and nl: "count_list body CHR ''\<newline>'' = (nat 18 + 15) div 16 - 1"
    and cm: "count_list body CHR '','' = nat 18 - 1"
    using array_wrap_and_comma_counts [OF w _ i, of 18 "\<lparr>file_f = [], file_stderr = []\<rparr>"
        "Some ''x[%ld]={''" sample_mem "Some ''};''"]
    by auto
  have b: "body = ''0,3,6,9,0xc,0xf,0x12,0x15,0x18,0x1b,0x1e,0x21,0x24,0x27,0x2a,0x2d,\<newline>'' @
     ''  0x30,0x33''"
    unfolding body by code_simp
  have pre: "c_format ''x[%ld]={'' [I 18] = ''x[18]={''"
    by code_simp
  show ?thesis
    using out nl cm unfolding b by (simp add: pre)
qed

section \<open>Decimal or hexadecimal\<close>

text \<open>
  Claim C2, as it stands, fails at width 64. There the element is read as a signed
  \<^verbatim>\<open>int64_t\<close> (the source says why: \<^verbatim>\<open>Signed due to TOML!\<close>), so an element with its top bit
  set is a negative value: it passes the test \<^verbatim>\<open>value<=9\<close> and is printed by \<^verbatim>\<open>PRId64\<close> as a
  minus sign and digits. The element with all 64 bits set is \<open>-1\<close>: at most 9 but not a
  plain digit, and as an unsigned number far above 9 but not hexadecimal.
\<close>

theorem signed_element_counterexample:
  "wa_value sample_mem 64 0 = - 1 \<and>
   uint (i64_at sample_mem 0) = 18446744073709551615 \<and>
   file_f (usrc_writeArray \<lparr>file_f = [], file_stderr = []\<rparr> None sample_mem 64 2 [] None) =
     ''-1,0xc''"
  by code_simp

text \<open>
  Claim C2, amended. Every element written is the text \<open>wa_element v\<close> of the value \<open>v\<close>
  read at the given width. At the widths 8, 16 and 32 the value is unsigned. A value from
  0 to 9 is its one decimal digit; a value above 9 is \<^verbatim>\<open>0x\<close> and its hexadecimal digits; a
  negative value, which only width 64 can give, is a minus sign and the decimal digits of
  its magnitude.
\<close>

theorem array_element_base_selection:
  assumes "width = 8 \<or> width = 16 \<or> width = 32 \<or> width = 64"
  shows "file_f (usrc_writeArray s prefix p width len indent postfix) =
           file_f s @ (case prefix of None \<Rightarrow> [] | Some fmt \<Rightarrow> c_format fmt [I len]) @
           concat (map (\<lambda>i. wa_sep indent i @ wa_element (wa_value p width i)) [0..<nat len]) @
           (case postfix of None \<Rightarrow> [] | Some t \<Rightarrow> t) \<and>
         (\<forall>i. (0 \<le> wa_value p width i \<and> wa_value p width i \<le> 9 \<longrightarrow>
                 wa_element (wa_value p width i) = [digit_char (wa_value p width i)]) \<and>
              (9 < wa_value p width i \<longrightarrow>
                 wa_element (wa_value p width i) = ''0x'' @ hex_digits (wa_value p width i)) \<and>
              (wa_value p width i < 0 \<longrightarrow>
                 width = 64 \<and>
                 wa_element (wa_value p width i) = CHR ''-'' # dec_digits (- wa_value p width i)))"
proof (intro conjI allI impI)
  show "file_f (usrc_writeArray s prefix p width len indent postfix) =
           file_f s @ (case prefix of None \<Rightarrow> [] | Some fmt \<Rightarrow> c_format fmt [I len]) @
           concat (map (\<lambda>i. wa_sep indent i @ wa_element (wa_value p width i)) [0..<nat len]) @
           (case postfix of None \<Rightarrow> [] | Some t \<Rightarrow> t)"
    by (simp add: usrc_writeArray_text [OF assms] wa_text_def)
next
  fix i
  assume "0 \<le> wa_value p width i \<and> wa_value p width i \<le> 9"
  then show "wa_element (wa_value p width i) = [digit_char (wa_value p width i)]"
    by (simp add: wa_element_digit)
next
  fix i
  assume big: "9 < wa_value p width i"
  have "wa_value p width i < 2 ^ 63"
    using wa_value_range [OF assms, of p i] by simp
  then have "wa_value p width i < 2 ^ 64"
    by simp
  with big have "wa_value p width i mod 2 ^ 64 = wa_value p width i"
    by (intro mod_pos_pos_trivial) simp_all
  then show "wa_element (wa_value p width i) = ''0x'' @ hex_digits (wa_value p width i)"
    using wa_element_large [OF big] by simp
next
  fix i
  assume neg: "wa_value p width i < 0"
  then show "width = 64"
    using wa_value_range [OF assms, of p i] by auto
  from neg show "wa_element (wa_value p width i) = CHR ''-'' # dec_digits (- wa_value p width i)"
    by (rule wa_element_negative)
qed

theorem array_element_base_selection_witness:
  "file_f (usrc_writeArray \<lparr>file_f = [], file_stderr = []\<rparr> None sample_mem 8 12 [] None) =
     ''0,1,2,3,4,5,6,7,8,9,0xa,0xb'' \<and>
   wa_element (wa_value sample_mem 8 9) = ''9'' \<and>
   wa_element (wa_value sample_mem 8 10) = ''0xa'' \<and>
   wa_element (wa_value sample_mem 64 0) = ''-1''"
proof -
  have w8: "(8::int) = 8 \<or> (8::int) = 16 \<or> (8::int) = 32 \<or> (8::int) = 64"
    by simp
  have w64: "(64::int) = 8 \<or> (64::int) = 16 \<or> (64::int) = 32 \<or> (64::int) = 64"
    by simp
  note a = array_element_base_selection [OF w8, of "\<lparr>file_f = [], file_stderr = []\<rparr>" None
      sample_mem 12 "[]" None]
  note b = array_element_base_selection [OF w64, of "\<lparr>file_f = [], file_stderr = []\<rparr>" None
      sample_mem 12 "[]" None]
  have v9: "wa_value sample_mem 8 9 = 9" and v10: "wa_value sample_mem 8 10 = 10"
    and v0: "wa_value sample_mem 64 0 = - 1"
    by code_simp+
  have "file_f (usrc_writeArray \<lparr>file_f = [], file_stderr = []\<rparr> None sample_mem 8 12 [] None) =
        concat (map (\<lambda>i. wa_sep [] i @ wa_element (wa_value sample_mem 8 i)) [0..<nat 12])"
    using a by simp
  also have "\<dots> = ''0,1,2,3,4,5,6,7,8,9,0xa,0xb''"
    by code_simp
  finally have 1: "file_f (usrc_writeArray \<lparr>file_f = [], file_stderr = []\<rparr> None sample_mem 8 12 []
      None) = ''0,1,2,3,4,5,6,7,8,9,0xa,0xb''" .
  have "wa_element (wa_value sample_mem 8 9) = [digit_char (wa_value sample_mem 8 9)]"
    using a [THEN conjunct2, THEN spec, of 9] v9 by simp
  also have "\<dots> = ''9''"
    by code_simp
  finally have 2: "wa_element (wa_value sample_mem 8 9) = ''9''" .
  have "wa_element (wa_value sample_mem 8 10) = ''0x'' @ hex_digits (wa_value sample_mem 8 10)"
    using a [THEN conjunct2, THEN spec, of 10] v10 by simp
  also have "\<dots> = ''0xa''"
    by code_simp
  finally have 3: "wa_element (wa_value sample_mem 8 10) = ''0xa''" .
  have "wa_element (wa_value sample_mem 64 0) = CHR ''-'' # dec_digits (- wa_value sample_mem 64 0)"
    using b [THEN conjunct2, THEN spec, of 0] v0 by simp
  also have "\<dots> = ''-1''"
    by code_simp
  finally have 4: "wa_element (wa_value sample_mem 64 0) = ''-1''" .
  from 1 2 3 4 show ?thesis
    by simp
qed

section \<open>usrc_writeArrayOfMostlyInvChars\<close>

text \<open>
  The loop variables: the counters \<^verbatim>\<open>i\<close> and \<^verbatim>\<open>col\<close>, the two previous bytes \<^verbatim>\<open>prev2\<close> and
  \<^verbatim>\<open>prev\<close> (C \<^verbatim>\<open>int\<close>s that start at \<open>-1\<close>), and the stream. The buffer \<^verbatim>\<open>const char *p\<close> is the
  bytes it points to; \<^verbatim>\<open>c=(uint8_t)p[i]\<close> is \<open>uint (p i)\<close>.
\<close>

record mic_state =
  mic_i :: nat
  mic_col :: nat
  mic_prev2 :: int
  mic_prev :: int
  mic_f :: string

text \<open>\<^verbatim>\<open>fprintf(f, c<0x20 ? "%u" : "'%c'", c)\<close>.\<close>

definition mic_element :: "int \<Rightarrow> string" where
  "mic_element c = c_format (if c < 0x20 then ''%u'' else [CHR 0x27, CHR ''%'', CHR ''c'', CHR 0x27]) [I c]"

definition mic_body :: "(nat \<Rightarrow> 8 word) \<Rightarrow> mic_state \<Rightarrow> mic_state" where
  "mic_body p st =
     (let c = uint (p (mic_i st));
          (col, f) =
            (if 0 < mic_i st then
               (if 32 \<le> mic_col st \<or>
                   (24 \<le> mic_col st \<and> 0x20 \<le> mic_prev2 st \<and> mic_prev st = 0) \<or>
                   (16 \<le> mic_col st \<and> (mic_prev st = 0 \<or> 0x20 \<le> mic_prev st) \<and> 0 < c \<and> c < 0x20)
                then (0, fputs '',\<newline>'' (mic_f st))
                else (mic_col st, fputc CHR '','' (mic_f st)))
             else (mic_col st, mic_f st));
          f = f @ mic_element c
      in \<lparr>mic_i = mic_i st + 1, mic_col = col + 1, mic_prev2 = mic_prev st, mic_prev = c,
          mic_f = f\<rparr>)"

function mic_loop :: "(nat \<Rightarrow> 8 word) \<Rightarrow> int \<Rightarrow> mic_state \<Rightarrow> mic_state" where
  "mic_loop p len st =
     (if int (mic_i st) < len then mic_loop p len (mic_body p st) else st)"
  by pat_completeness auto
termination
  by (relation "measure (\<lambda>(p, len, st). nat (len - int (mic_i st)))")
     (auto simp: mic_body_def Let_def split: prod.splits)

declare mic_loop.simps [simp del]

definition usrc_writeArrayOfMostlyInvChars ::
  "io \<Rightarrow> string option \<Rightarrow> (nat \<Rightarrow> 8 word) \<Rightarrow> int \<Rightarrow> string option \<Rightarrow> io" where
  "usrc_writeArrayOfMostlyInvChars s prefix p len postfix =
     (let f = file_f s;
          f = (case prefix of None \<Rightarrow> f | Some fmt \<Rightarrow> fprintf f fmt [I len]);
          f = mic_f (mic_loop p len
                \<lparr>mic_i = 0, mic_col = 0, mic_prev2 = - 1, mic_prev = - 1, mic_f = f\<rparr>);
          f = (case postfix of None \<Rightarrow> f | Some t \<Rightarrow> fputs t f)
      in s\<lparr>file_f := f\<rparr>)"

section \<open>The text of one byte\<close>

lemma uint8_mod32: "uint (b :: 8 word) mod 4294967296 = uint b"
proof -
  have "uint b < 2 ^ 8"
    using uint_lt2p [of b] by simp
  then have "uint b < 4294967296"
    by simp
  then show ?thesis
    by (simp add: mod_pos_pos_trivial)
qed

lemma uint8_mod256: "uint (b :: 8 word) mod 256 = uint b"
proof -
  have "uint b < 2 ^ 8"
    using uint_lt2p [of b] by simp
  then show ?thesis
    by (simp add: mod_pos_pos_trivial)
qed

lemma mic_element_control:
  "uint (b :: 8 word) < 0x20 \<Longrightarrow> mic_element (uint b) = dec_digits (uint b)"
  by (simp add: mic_element_def c_format_lit uint8_mod32)

lemma mic_element_quoted:
  "0x20 \<le> uint (b :: 8 word) \<Longrightarrow> mic_element (uint b) = [CHR 0x27, char_of (uint b), CHR 0x27]"
  by (simp add: mic_element_def c_format_lit uint8_mod256)

lemma quoted_not_decimal: "[CHR 0x27, c, CHR 0x27] \<noteq> dec_digits n"
proof
  assume "[CHR 0x27, c, CHR 0x27] = dec_digits n"
  then have "CHR 0x27 \<in> set (dec_digits n)"
    by (metis list.set_intros(1))
  moreover have "CHR 0x27 \<notin> set (dec_digits n)"
    by (rule dec_digits_no_char) simp
  ultimately show False
    by simp
qed

section \<open>The loop of usrc_writeArrayOfMostlyInvChars\<close>

definition mic_run :: "(nat \<Rightarrow> 8 word) \<Rightarrow> string \<Rightarrow> nat \<Rightarrow> mic_state" where
  "mic_run p f k =
     (mic_body p ^^ k) \<lparr>mic_i = 0, mic_col = 0, mic_prev2 = - 1, mic_prev = - 1, mic_f = f\<rparr>"

lemma mic_body_i: "mic_i (mic_body p st) = Suc (mic_i st)"
  by (simp add: mic_body_def Let_def split: prod.splits)

lemma mic_run_0:
  "mic_run p f 0 = \<lparr>mic_i = 0, mic_col = 0, mic_prev2 = - 1, mic_prev = - 1, mic_f = f\<rparr>"
  by (simp add: mic_run_def)

lemma mic_run_Suc: "mic_run p f (Suc k) = mic_body p (mic_run p f k)"
  by (simp add: mic_run_def)

lemma mic_run_i: "mic_i (mic_run p f k) = k"
  by (induction k) (simp_all add: mic_run_0 mic_run_Suc mic_body_i)

lemma mic_loop_run:
  "int k \<le> len \<Longrightarrow> mic_loop p len (mic_run p f k) = mic_run p f (nat len)"
proof (induction "nat len - k" arbitrary: k)
  case 0
  then have "nat len = k"
    by simp
  then show ?case
    using 0 by (subst mic_loop.simps) (simp add: mic_run_i)
next
  case (Suc d)
  then have lt: "int k < len"
    by simp
  have "mic_loop p len (mic_run p f k) = mic_loop p len (mic_run p f (Suc k))"
    using lt by (subst mic_loop.simps) (simp add: mic_run_Suc mic_run_i)
  also have "\<dots> = mic_run p f (nat len)"
    using Suc lt by (intro Suc.hyps(1)) auto
  finally show ?case .
qed

lemma mic_loop_is_run:
  "mic_loop p len \<lparr>mic_i = 0, mic_col = 0, mic_prev2 = - 1, mic_prev = - 1, mic_f = f\<rparr> =
     mic_run p f (nat len)"
proof (cases "0 \<le> len")
  case True
  then have "int 0 \<le> len"
    by simp
  then have "mic_loop p len (mic_run p f 0) = mic_run p f (nat len)"
    by (rule mic_loop_run)
  then show ?thesis
    by (simp only: mic_run_0)
next
  case False
  then have "nat len = 0"
    by simp
  moreover have "mic_loop p len \<lparr>mic_i = 0, mic_col = 0, mic_prev2 = - 1, mic_prev = - 1, mic_f = f\<rparr> =
      \<lparr>mic_i = 0, mic_col = 0, mic_prev2 = - 1, mic_prev = - 1, mic_f = f\<rparr>"
    using False by (subst mic_loop.simps) simp
  ultimately show ?thesis
    by (simp add: mic_run_0)
qed

lemma usrc_writeArrayOfMostlyInvChars_run:
  "usrc_writeArrayOfMostlyInvChars s prefix p len postfix =
     s\<lparr>file_f :=
         mic_f (mic_run p
           (file_f s @ (case prefix of None \<Rightarrow> [] | Some fmt \<Rightarrow> c_format fmt [I len])) (nat len)) @
         (case postfix of None \<Rightarrow> [] | Some t \<Rightarrow> t)\<rparr>"
  unfolding usrc_writeArrayOfMostlyInvChars_def Let_def mic_loop_is_run fprintf_def fputs_def
  by (cases prefix; cases postfix) simp_all

text \<open>What one pass appends: a separator and the text of the byte.\<close>

lemma mic_body_appends:
  "\<exists>sep. (sep = [] \<or> sep = '','' \<or> sep = '',\<newline>'') \<and>
         mic_f (mic_body p st) = mic_f st @ sep @ mic_element (uint (p (mic_i st)))"
  by (simp add: mic_body_def Let_def fputs_def fputc_def)

text \<open>
  Claim C10. Every pass of the loop of \<^verbatim>\<open>usrc_writeArrayOfMostlyInvChars\<close> appends a
  separator and the text of one byte, and the call writes what \<open>length\<close> passes append.
  The text of a byte is its bare decimal number exactly when the byte is below \<^verbatim>\<open>0x20\<close>.
  Every byte from \<^verbatim>\<open>0x20\<close> up, with \<^verbatim>\<open>0x7F\<close> and the bytes from \<^verbatim>\<open>0x80\<close>, is a quote, the raw
  byte and a quote.
\<close>

theorem byte_decimal_iff_below_0x20:
  "file_f (usrc_writeArrayOfMostlyInvChars s prefix p len postfix) =
     mic_f (mic_run p
       (file_f s @ (case prefix of None \<Rightarrow> [] | Some fmt \<Rightarrow> c_format fmt [I len])) (nat len)) @
     (case postfix of None \<Rightarrow> [] | Some t \<Rightarrow> t) \<and>
   (\<exists>sep. (sep = [] \<or> sep = '','' \<or> sep = '',\<newline>'') \<and>
          mic_f (mic_run p f (Suc k)) = mic_f (mic_run p f k) @ sep @ mic_element (uint (p k))) \<and>
   (mic_element (uint (p k)) = dec_digits (uint (p k))) = (uint (p k) < 0x20) \<and>
   (mic_element (uint (p k)) = [CHR 0x27, char_of (uint (p k)), CHR 0x27]) = (0x20 \<le> uint (p k)) \<and>
   of_char (char_of (uint (p k)) :: char) = uint (p k)"
proof (intro conjI)
  show "file_f (usrc_writeArrayOfMostlyInvChars s prefix p len postfix) =
     mic_f (mic_run p
       (file_f s @ (case prefix of None \<Rightarrow> [] | Some fmt \<Rightarrow> c_format fmt [I len])) (nat len)) @
     (case postfix of None \<Rightarrow> [] | Some t \<Rightarrow> t)"
    by (simp add: usrc_writeArrayOfMostlyInvChars_run)
  show "\<exists>sep. (sep = [] \<or> sep = '','' \<or> sep = '',\<newline>'') \<and>
          mic_f (mic_run p f (Suc k)) = mic_f (mic_run p f k) @ sep @ mic_element (uint (p k))"
    using mic_body_appends [of p "mic_run p f k"] by (simp add: mic_run_Suc mic_run_i)
  show "(mic_element (uint (p k)) = dec_digits (uint (p k))) = (uint (p k) < 0x20)"
  proof (cases "uint (p k) < 0x20")
    case True
    then show ?thesis
      by (simp add: mic_element_control)
  next
    case False
    then have "0x20 \<le> uint (p k)"
      by simp
    then have "mic_element (uint (p k)) = [CHR 0x27, char_of (uint (p k)), CHR 0x27]"
      by (rule mic_element_quoted)
    with False show ?thesis
      using quoted_not_decimal [of "char_of (uint (p k))" "uint (p k)"] by simp
  qed
  show "(mic_element (uint (p k)) = [CHR 0x27, char_of (uint (p k)), CHR 0x27]) = (0x20 \<le> uint (p k))"
  proof (cases "uint (p k) < 0x20")
    case True
    then have "mic_element (uint (p k)) = dec_digits (uint (p k))"
      by (rule mic_element_control)
    with True show ?thesis
      using quoted_not_decimal [of "char_of (uint (p k))" "uint (p k)"] by auto
  next
    case False
    then have "0x20 \<le> uint (p k)"
      by simp
    then show ?thesis
      by (simp add: mic_element_quoted)
  qed
  show "of_char (char_of (uint (p k)) :: char) = uint (p k)"
    by (simp add: uint8_mod256)
qed

section \<open>Where the byte array breaks its lines\<close>

text \<open>
  The layout rules in the words of the specification. \<open>before\<close> is the bytes already
  written, the latest first, and \<open>n\<close> the number of elements on the current line. A byte
  counts as printable when it is at least \<^verbatim>\<open>0x20\<close>, the test the writer uses for quoting. A
  line break is due when the line has 32 elements; or when it has 24 and the previous
  byte is zero and follows a printable byte; or when it has 16, the byte to write is a
  control byte from 1 to 31 and the previous byte is zero or printable.
\<close>

definition mic_printable :: "8 word \<Rightarrow> bool" where
  "mic_printable b = (0x20 \<le> uint b)"

definition spec_break :: "nat \<Rightarrow> 8 word list \<Rightarrow> 8 word \<Rightarrow> bool" where
  "spec_break n before c =
     (32 \<le> n \<or>
      (24 \<le> n \<and> (case before of z # q # _ \<Rightarrow> z = 0 \<and> mic_printable q | _ \<Rightarrow> False)) \<or>
      (16 \<le> n \<and> 1 \<le> uint c \<and> uint c \<le> 31 \<and>
         (case before of z # _ \<Rightarrow> z = 0 \<or> mic_printable z | [] \<Rightarrow> False)))"

text \<open>
  The text after the first element: each further byte on a new line when a break is due,
  on the current line after a comma when none is.
\<close>

fun spec_tail :: "8 word list \<Rightarrow> nat \<Rightarrow> 8 word list \<Rightarrow> string" where
  "spec_tail before n [] = []"
| "spec_tail before n (c # rest) =
     (if spec_break n before c
      then '',\<newline>'' @ mic_element (uint c) @ spec_tail (c # before) 1 rest
      else '','' @ mic_element (uint c) @ spec_tail (c # before) (n + 1) rest)"

fun spec_layout :: "8 word list \<Rightarrow> string" where
  "spec_layout [] = []"
| "spec_layout (c # rest) = mic_element (uint c) @ spec_tail [c] 1 rest"

text \<open>The registers \<^verbatim>\<open>prev\<close> and \<^verbatim>\<open>prev2\<close> as functions of the bytes written.\<close>

fun reg_prev :: "8 word list \<Rightarrow> int" where
  "reg_prev [] = - 1"
| "reg_prev (z # _) = uint z"

fun reg_prev2 :: "8 word list \<Rightarrow> int" where
  "reg_prev2 (_ # q # _) = uint q"
| "reg_prev2 _ = - 1"

lemma reg_prev2_Cons: "reg_prev2 (c # before) = reg_prev before"
  by (cases before) simp_all

lemma uint_eq_0_byte: "(uint (z :: 8 word) = 0) = (z = 0)"
  by (simp add: uint_0_iff)

lemma source_break_is_spec_break:
  "(32 \<le> n \<or> (24 \<le> n \<and> 0x20 \<le> reg_prev2 before \<and> reg_prev before = 0) \<or>
    (16 \<le> n \<and> (reg_prev before = 0 \<or> 0x20 \<le> reg_prev before) \<and> 0 < uint c \<and> uint c < 0x20)) =
   spec_break n before c"
proof (cases before)
  case Nil
  then show ?thesis
    by (simp add: spec_break_def)
next
  case (Cons z r)
  show ?thesis
  proof (cases r)
    case Nil
    with Cons show ?thesis
      by (auto simp: spec_break_def mic_printable_def uint_eq_0_byte)
  next
    case (Cons q r')
    with \<open>before = z # r\<close> show ?thesis
      by (auto simp: spec_break_def mic_printable_def uint_eq_0_byte)
  qed
qed

lemma mic_body_spec:
  assumes "mic_i st = k" "0 < k" "mic_col st = n" "mic_prev st = reg_prev before"
    "mic_prev2 st = reg_prev2 before"
  shows "mic_body p st =
         \<lparr>mic_i = Suc k, mic_col = (if spec_break n before (p k) then 1 else n + 1),
          mic_prev2 = reg_prev before, mic_prev = uint (p k),
          mic_f = mic_f st @ (if spec_break n before (p k) then '',\<newline>'' else '','') @
                  mic_element (uint (p k))\<rparr>"
proof -
  have b: "(32 \<le> mic_col st \<or>
            (24 \<le> mic_col st \<and> 0x20 \<le> mic_prev2 st \<and> mic_prev st = 0) \<or>
            (16 \<le> mic_col st \<and> (mic_prev st = 0 \<or> 0x20 \<le> mic_prev st) \<and>
               0 < uint (p (mic_i st)) \<and> uint (p (mic_i st)) < 0x20)) =
           spec_break n before (p k)"
    unfolding assms by (rule source_break_is_spec_break)
  show ?thesis
  proof (cases "spec_break n before (p k)")
    case True
    with b show ?thesis
      unfolding mic_body_def Let_def using assms by (simp add: fputs_def fputc_def)
  next
    case False
    with b show ?thesis
      unfolding mic_body_def Let_def using assms by (simp add: fputs_def fputc_def)
  qed
qed

lemma mic_passes:
  assumes "mic_i st = k" "0 < k" "mic_col st = n" "mic_prev st = reg_prev before"
    "mic_prev2 st = reg_prev2 before"
  shows "mic_f ((mic_body p ^^ m) st) = mic_f st @ spec_tail before n (map p [k..<k + m])"
  using assms
proof (induction m arbitrary: st k n before)
  case 0
  then show ?case
    by simp
next
  case (Suc m)
  let ?st = "mic_body p st"
  let ?n = "if spec_break n before (p k) then 1 else n + 1"
  have step: "?st =
         \<lparr>mic_i = Suc k, mic_col = ?n, mic_prev2 = reg_prev before, mic_prev = uint (p k),
          mic_f = mic_f st @ (if spec_break n before (p k) then '',\<newline>'' else '','') @
                  mic_element (uint (p k))\<rparr>"
    using Suc.prems by (rule mic_body_spec)
  have "mic_f ((mic_body p ^^ m) ?st) = mic_f ?st @ spec_tail (p k # before) ?n (map p [Suc k..<Suc k + m])"
  proof (rule Suc.IH)
    show "mic_i ?st = Suc k" "0 < Suc k" "mic_col ?st = ?n"
      "mic_prev ?st = reg_prev (p k # before)" "mic_prev2 ?st = reg_prev2 (p k # before)"
      by (simp_all add: step reg_prev2_Cons)
  qed
  moreover have "(mic_body p ^^ Suc m) st = (mic_body p ^^ m) ?st"
    by (simp add: funpow_swap1)
  moreover have "map p [k..<k + Suc m] = p k # map p [Suc k..<Suc k + m]"
  proof -
    have "[k..<k + Suc m] = k # [Suc k..<k + Suc m]"
      by (rule upt_conv_Cons) simp
    then show ?thesis
      by (simp only: list.map add_Suc_right add_Suc)
  qed
  ultimately show ?case
    by (simp add: step)
qed

lemma mic_run_layout: "mic_f (mic_run p f k) = f @ spec_layout (map p [0..<k])"
proof (cases k)
  case 0
  then show ?thesis
    by (simp add: mic_run_0)
next
  case (Suc m)
  let ?st = "\<lparr>mic_i = Suc 0, mic_col = 1, mic_prev2 = - 1, mic_prev = uint (p 0),
              mic_f = f @ mic_element (uint (p 0))\<rparr>"
  have first: "mic_run p f (Suc 0) = ?st"
    by (simp add: mic_run_Suc mic_run_0 mic_body_def Let_def)
  have "mic_run p f (Suc m) = (mic_body p ^^ m) (mic_run p f (Suc 0))"
    by (simp add: mic_run_def funpow_swap1)
  then have "mic_f (mic_run p f (Suc m)) = mic_f ((mic_body p ^^ m) ?st)"
    by (simp only: first)
  also have "\<dots> = mic_f ?st @ spec_tail [p 0] 1 (map p [Suc 0..<Suc 0 + m])"
    by (rule mic_passes) simp_all
  also have "\<dots> = f @ spec_layout (map p [0..<Suc m])"
  proof -
    have "[0..<Suc m] = 0 # [Suc 0..<Suc m]"
      by (rule upt_conv_Cons) simp
    then have "map p [0..<Suc m] = p 0 # map p [Suc 0..<Suc 0 + m]"
      by (simp only: list.map add_Suc add_0)
    then show ?thesis
      by simp
  qed
  finally show ?thesis
    by (simp only: Suc)
qed

text \<open>
  Claim C8. Between the prefix and the postfix \<^verbatim>\<open>usrc_writeArrayOfMostlyInvChars\<close> writes
  the layout of the rules: the first element as it is, and every further element after a
  line break exactly when one of the three rules holds for the number of elements on the
  current line, the bytes written before and the byte to write, after a plain comma when
  none holds. The three rules are alternatives of one test, so their order decides
  nothing. The registers of the loop are read back as the rules name them: \<^verbatim>\<open>col\<close> is the
  number of elements on the current line, \<^verbatim>\<open>prev\<close> and \<^verbatim>\<open>prev2\<close> the last two bytes.
\<close>

theorem byte_array_breaks_by_rule:
  "file_f (usrc_writeArrayOfMostlyInvChars s prefix p len postfix) =
     file_f s @ (case prefix of None \<Rightarrow> [] | Some fmt \<Rightarrow> c_format fmt [I len]) @
     spec_layout (map p [0..<nat len]) @
     (case postfix of None \<Rightarrow> [] | Some t \<Rightarrow> t) \<and>
   (0 < mic_i st \<and> mic_prev st = reg_prev before \<and> mic_prev2 st = reg_prev2 before \<longrightarrow>
      mic_f (mic_body p st) =
        mic_f st @ (if spec_break (mic_col st) before (p (mic_i st)) then '',\<newline>'' else '','') @
        mic_element (uint (p (mic_i st))) \<and>
      mic_col (mic_body p st) = (if spec_break (mic_col st) before (p (mic_i st)) then 1
                                 else mic_col st + 1) \<and>
      mic_prev (mic_body p st) = reg_prev (p (mic_i st) # before) \<and>
      mic_prev2 (mic_body p st) = reg_prev2 (p (mic_i st) # before))"
proof (intro conjI impI)
  show "file_f (usrc_writeArrayOfMostlyInvChars s prefix p len postfix) =
     file_f s @ (case prefix of None \<Rightarrow> [] | Some fmt \<Rightarrow> c_format fmt [I len]) @
     spec_layout (map p [0..<nat len]) @
     (case postfix of None \<Rightarrow> [] | Some t \<Rightarrow> t)"
    by (simp add: usrc_writeArrayOfMostlyInvChars_run mic_run_layout)
next
  assume a: "0 < mic_i st \<and> mic_prev st = reg_prev before \<and> mic_prev2 st = reg_prev2 before"
  have step: "mic_body p st =
         \<lparr>mic_i = Suc (mic_i st),
          mic_col = (if spec_break (mic_col st) before (p (mic_i st)) then 1 else mic_col st + 1),
          mic_prev2 = reg_prev before, mic_prev = uint (p (mic_i st)),
          mic_f = mic_f st @
                  (if spec_break (mic_col st) before (p (mic_i st)) then '',\<newline>'' else '','') @
                  mic_element (uint (p (mic_i st)))\<rparr>"
    using a by (intro mic_body_spec) simp_all
  show "mic_f (mic_body p st) =
        mic_f st @ (if spec_break (mic_col st) before (p (mic_i st)) then '',\<newline>'' else '','') @
        mic_element (uint (p (mic_i st)))"
    by (simp add: step)
  show "mic_col (mic_body p st) = (if spec_break (mic_col st) before (p (mic_i st)) then 1
                                 else mic_col st + 1)"
    by (simp add: step)
  show "mic_prev (mic_body p st) = reg_prev (p (mic_i st) # before)"
    by (simp add: step)
  show "mic_prev2 (mic_body p st) = reg_prev2 (p (mic_i st) # before)"
    by (simp add: step reg_prev2_Cons)
qed
text \<open>
  A sample buffer: sixteen letters, a terminating zero, then a control byte, where the
  third rule breaks the line, then a letter.
\<close>

definition sample_bytes :: "nat \<Rightarrow> 8 word" where
  "sample_bytes i = (if i = 16 then 0 else if i = 17 then 1 else 0x41)"

theorem byte_array_breaks_by_rule_witness:
  "file_f (usrc_writeArrayOfMostlyInvChars \<lparr>file_f = [], file_stderr = []\<rparr> None sample_bytes 19
      None) =
     concat (replicate 16 ([CHR 0x27, CHR ''A'', CHR 0x27] @ '','')) @ ''0,\<newline>1,'' @
     [CHR 0x27, CHR ''A'', CHR 0x27] \<and>
   mic_f (mic_body sample_bytes
     \<lparr>mic_i = 17, mic_col = 17, mic_prev2 = 0x41, mic_prev = 0, mic_f = ''0''\<rparr>) = ''0,\<newline>1'' \<and>
   mic_col (mic_body sample_bytes
     \<lparr>mic_i = 17, mic_col = 17, mic_prev2 = 0x41, mic_prev = 0, mic_f = ''0''\<rparr>) = 1"
proof -
  let ?st = "\<lparr>mic_i = 17, mic_col = 17, mic_prev2 = 0x41, mic_prev = 0, mic_f = ''0''\<rparr>"
  let ?before = "[0, 0x41] :: 8 word list"
  note inst = byte_array_breaks_by_rule
    [where s = "\<lparr>file_f = [], file_stderr = []\<rparr>" and prefix = None and p = sample_bytes
       and len = 19 and postfix = None and st = ?st and before = ?before]
  have hyp: "0 < mic_i ?st \<and> mic_prev ?st = reg_prev ?before \<and> mic_prev2 ?st = reg_prev2 ?before"
    by simp
  have "file_f (usrc_writeArrayOfMostlyInvChars \<lparr>file_f = [], file_stderr = []\<rparr> None sample_bytes
          19 None) = spec_layout (map sample_bytes [0..<nat 19])"
    using inst by simp
  also have "\<dots> = concat (replicate 16 ([CHR 0x27, CHR ''A'', CHR 0x27] @ '','')) @ ''0,\<newline>1,'' @
     [CHR 0x27, CHR ''A'', CHR 0x27]"
    by code_simp
  finally have 1: "file_f (usrc_writeArrayOfMostlyInvChars \<lparr>file_f = [], file_stderr = []\<rparr> None
      sample_bytes 19 None) =
     concat (replicate 16 ([CHR 0x27, CHR ''A'', CHR 0x27] @ '','')) @ ''0,\<newline>1,'' @
     [CHR 0x27, CHR ''A'', CHR 0x27]" .
  have brk: "spec_break 17 ?before (sample_bytes 17)"
    by code_simp
  have el: "mic_element (uint (sample_bytes 17)) = ''1''"
    by code_simp
  have 2: "mic_f (mic_body sample_bytes ?st) = ''0,\<newline>1''"
    using inst [THEN conjunct2, THEN mp, OF hyp] brk el by simp
  have 3: "mic_col (mic_body sample_bytes ?st) = 1"
    using inst [THEN conjunct2, THEN mp, OF hyp] brk by simp
  from 1 2 3 show ?thesis
    by simp
qed

section \<open>usrc_writeStringAsASCII\<close>

text \<open>A \<^verbatim>\<open>fprintf(f, ...)\<close> on the streams.\<close>

definition io_printf :: "io \<Rightarrow> string \<Rightarrow> c_arg list \<Rightarrow> io" where
  "io_printf s fmt args = s\<lparr>file_f := fprintf (file_f s) fmt args\<rparr>"

text \<open>
  What the functions below take from outside the file, as parameters: the build flag
  \<^verbatim>\<open>U_DEBUG\<close> that turns \<^verbatim>\<open>U_ASSERT\<close> on; the classifier \<^verbatim>\<open>ICU_Utility::isUnprintable\<close>; and the
  escaper, as the UTF-8 text of what \<^verbatim>\<open>ICU_Utility::escapeUnprintable\<close> appends for a code
  point (the source converts its result with \<^verbatim>\<open>toUTF8String\<close> and prints it with \<^verbatim>\<open>%s\<close>).
\<close>

record icu =
  U_DEBUG :: bool
  isUnprintable :: "int \<Rightarrow> bool"
  escapeUnprintable :: "int \<Rightarrow> string"

text \<open>
  Modelled from the spec: the macro \<^verbatim>\<open>U16_NEXT\<close> of \<^verbatim>\<open>utf16.h\<close>, which is not among the sources.
  The spec says code points are decoded left to right, with surrogate pairs handled per
  standard UTF-16 decoding: a lead surrogate followed, inside the string, by a trail
  surrogate is one supplementary code point and takes two units; any other unit is its
  own code point. The result is the next index and the code point.
\<close>

definition U16_IS_LEAD :: "int \<Rightarrow> bool" where
  "U16_IS_LEAD c = (0xD800 \<le> c \<and> c \<le> 0xDBFF)"

definition U16_IS_TRAIL :: "int \<Rightarrow> bool" where
  "U16_IS_TRAIL c = (0xDC00 \<le> c \<and> c \<le> 0xDFFF)"

definition U16_GET_SUPPLEMENTARY :: "int \<Rightarrow> int \<Rightarrow> int" where
  "U16_GET_SUPPLEMENTARY lead trail = (lead - 0xD800) * 0x400 + (trail - 0xDC00) + 0x10000"

definition U16_NEXT :: "(nat \<Rightarrow> 16 word) \<Rightarrow> nat \<Rightarrow> int \<Rightarrow> nat \<times> int" where
  "U16_NEXT ptr i len =
     (let c = uint (ptr i) in
      if U16_IS_LEAD c \<and> int (i + 1) \<noteq> len \<and> U16_IS_TRAIL (uint (ptr (i + 1)))
      then (i + 2, U16_GET_SUPPLEMENTARY c (uint (ptr (i + 1))))
      else (i + 1, c))"

lemma U16_NEXT_advances: "U16_NEXT ptr i len = (i', cp) \<Longrightarrow> i < i'"
  by (auto simp: U16_NEXT_def Let_def split: if_splits)

text \<open>
  The text written for one code point: the branches of the loop body, without the
  assertion. \<^verbatim>\<open>char s[2] = {static_cast<char>(cp), 0}\<close> printed with \<^verbatim>\<open>%s\<close> is the low byte of
  the code point, or nothing when that byte is zero.
\<close>

definition sa_piece :: "icu \<Rightarrow> int \<Rightarrow> string" where
  "sa_piece env cp =
     (if cp = 0x22 then c_format [CHR 0x5C, CHR 0x22] []
      else if isUnprintable env cp then c_format ''%s'' [S (escapeUnprintable env cp)]
      else c_format ''%s'' [S (if cp mod 256 = 0 then [] else [char_of (cp mod 256)])])"

text \<open>
  The \<^verbatim>\<open>while (i < length)\<close> loop. \<^verbatim>\<open>U_ASSERT(cp < 0x80)\<close> stands in the last branch, so it is
  reached only by a code point that is neither the double quote nor unprintable.
\<close>

function sa_loop :: "icu \<Rightarrow> (nat \<Rightarrow> 16 word) \<Rightarrow> int \<Rightarrow> nat \<Rightarrow> io \<Rightarrow> outcome" where
  "sa_loop env ptr len i s =
     (if int i < len then
        (case U16_NEXT ptr i len of
           (i', cp) \<Rightarrow>
             if cp \<noteq> 0x22 \<and> \<not> isUnprintable env cp \<and> U_DEBUG env \<and> \<not> cp < 0x80 then Aborted s
             else sa_loop env ptr len i' (s\<lparr>file_f := file_f s @ sa_piece env cp\<rparr>))
      else Returned s)"
  by pat_completeness auto
termination
  by (relation "measure (\<lambda>(env, ptr, len, i, s). nat (len - int i))")
     (auto dest: U16_NEXT_advances [OF sym])

declare sa_loop.simps [simp del]

definition usrc_writeStringAsASCII ::
  "icu \<Rightarrow> io \<Rightarrow> (nat \<Rightarrow> 16 word) \<Rightarrow> int \<Rightarrow> UTargetSyntax \<Rightarrow> outcome" where
  "usrc_writeStringAsASCII env s ptr len syntax =
     (case sa_loop env ptr len 0 (io_printf s [CHR 0x22] []) of
        Aborted s' \<Rightarrow> Aborted s'
      | Returned s' \<Rightarrow> Returned (io_printf s' [CHR 0x22] []))"

section \<open>usrc_writeUnicodeSet\<close>

text \<open>
  \<^verbatim>\<open>UnicodeSet\<close> and \<^verbatim>\<open>UnicodeSetIterator\<close> are not among the sources. The set is taken as
  the sequence its iterator yields, one item per successful \<^verbatim>\<open>it.nextRange()\<close>: a range of
  code points, or a string (\<^verbatim>\<open>it.isString()\<close>) as its UTF-16 code units.
\<close>

datatype uset_item = URange int int | UString "16 word list"

fun us_loop :: "icu \<Rightarrow> UTargetSyntax \<Rightarrow> uset_item list \<Rightarrow> bool \<Rightarrow> io \<Rightarrow> outcome" where
  "us_loop env syntax [] seenFirstString s = Returned s"
| "us_loop env syntax (UString str # it) seenFirstString s =
     (let (seenFirstString, s) =
            (if \<not> seenFirstString then (True, io_printf s '']\<newline>strings = [\<newline>'' [])
             else (seenFirstString, s));
          s = io_printf s ''  '' []
      in case usrc_writeStringAsASCII env s (\<lambda>i. str ! i) (int (length str)) syntax of
           Aborted s' \<Rightarrow> Aborted s'
         | Returned s' \<Rightarrow> us_loop env syntax it seenFirstString (io_printf s' '',\<newline>'' []))"
| "us_loop env syntax (URange start end # it) seenFirstString s =
     (if U_DEBUG env \<and> seenFirstString then Aborted s
      else us_loop env syntax it seenFirstString
             (io_printf s ''  [0x%x, 0x%x],\<newline>'' [I start, I end]))"

definition usrc_writeUnicodeSet :: "icu \<Rightarrow> io \<Rightarrow> uset_item list \<Rightarrow> UTargetSyntax \<Rightarrow> outcome" where
  "usrc_writeUnicodeSet env s pSet syntax =
     (if U_DEBUG env \<and> syntax \<noteq> UPRV_TARGET_SYNTAX_TOML then Aborted s
      else
        (let s = io_printf s ''# Inclusive ranges of the code points in the set.\<newline>'' [];
             s = io_printf s ''ranges = [\<newline>'' []
         in case us_loop env syntax pSet False s of
              Aborted s' \<Rightarrow> Aborted s'
            | Returned s' \<Rightarrow> Returned (io_printf s' '']\<newline>'' [])))"

section \<open>usrc_writeUCPMap\<close>

text \<open>
  \<^verbatim>\<open>ucpmap_getRange\<close> is not among the sources. A map is taken as its range query with the
  fixed arguments of the call: \<open>pMap start\<close> is the end of the range that starts at \<open>start\<close>
  and the value of the range. The optional \<^verbatim>\<open>ValueNameGetter\<close> is its \<^verbatim>\<open>getName\<close>. The loop
  runs as long as the query returns a nonnegative end, so whether it ends depends on the
  map: it is a partial function, \<open>None\<close> when it does not return. \<^verbatim>\<open>start = end + 1\<close> is on
  \<^verbatim>\<open>int32_t\<close>; it overflows only for an end of \<open>2^31 - 1\<close>, which no code point is.
\<close>

type_synonym UCPMap = "int \<Rightarrow> int \<times> 32 word"

definition um_entry :: "(32 word \<Rightarrow> string) option \<Rightarrow> int \<Rightarrow> int \<Rightarrow> 32 word \<Rightarrow> string" where
  "um_entry valueNameGetter start end v =
     (case valueNameGetter of
        Some getName \<Rightarrow>
          c_format (''  {a=0x%x, b=0x%x, v=%u, name='' @ [CHR 0x22] @ ''%s'' @ [CHR 0x22] @ ''},\<newline>'')
            [I start, I end, I (uint v), S (getName v)]
      | None \<Rightarrow> c_format ''  {a=0x%x, b=0x%x, v=%u},\<newline>'' [I start, I end, I (uint v)])"

partial_function (option) um_loop ::
  "UCPMap \<Rightarrow> (32 word \<Rightarrow> string) option \<Rightarrow> int \<Rightarrow> io \<Rightarrow> io option" where
  "um_loop pMap valueNameGetter start s =
     (case pMap start of
        (end, v) \<Rightarrow>
          if 0 \<le> end then
            um_loop pMap valueNameGetter (end + 1)
              (s\<lparr>file_f := file_f s @ um_entry valueNameGetter start end v\<rparr>)
          else Some s)"

definition usrc_writeUCPMap ::
  "icu \<Rightarrow> io \<Rightarrow> UCPMap \<Rightarrow> (32 word \<Rightarrow> string) option \<Rightarrow> UTargetSyntax \<Rightarrow> outcome option" where
  "usrc_writeUCPMap env s pMap valueNameGetter syntax =
     (if U_DEBUG env \<and> syntax \<noteq> UPRV_TARGET_SYNTAX_TOML then Some (Aborted s)
      else
        (let s = io_printf s
                   (''# Code points `a` through `b` have value `v`, corresponding to `name`.\<newline>'') [];
             s = io_printf s ''ranges = [\<newline>'' []
         in case um_loop pMap valueNameGetter 0 s of
              None \<Rightarrow> None
            | Some s' \<Rightarrow> Some (Returned (io_printf s' '']\<newline>'' []))))"

section \<open>What the string escaper writes\<close>

text \<open>The code points that the successive \<^verbatim>\<open>U16_NEXT\<close> of the loop decode, from index \<open>i\<close> on.\<close>

function code_points :: "(nat \<Rightarrow> 16 word) \<Rightarrow> int \<Rightarrow> nat \<Rightarrow> int list" where
  "code_points ptr len i =
     (if int i < len then
        (case U16_NEXT ptr i len of (i', cp) \<Rightarrow> cp # code_points ptr len i')
      else [])"
  by pat_completeness auto
termination
  by (relation "measure (\<lambda>(ptr, len, i). nat (len - int i))")
     (auto dest: U16_NEXT_advances [OF sym])

declare code_points.simps [simp del]

lemma c_format_quote: "c_format [CHR 0x22] [] = [CHR 0x22]"
  by (simp add: c_format_lit)

lemma sa_piece_quote: "sa_piece env 0x22 = [CHR 0x5C, CHR 0x22]"
  by (simp add: sa_piece_def c_format_lit)

lemma sa_piece_unprintable:
  "cp \<noteq> 0x22 \<Longrightarrow> isUnprintable env cp \<Longrightarrow> sa_piece env cp = escapeUnprintable env cp"
  by (simp add: sa_piece_def c_format_lit)

lemma sa_piece_plain:
  "cp \<noteq> 0x22 \<Longrightarrow> \<not> isUnprintable env cp \<Longrightarrow>
   sa_piece env cp = (if cp mod 256 = 0 then [] else [char_of (cp mod 256)])"
  by (simp add: sa_piece_def c_format_lit)

lemma sa_loop_text:
  assumes "U_DEBUG env \<longrightarrow>
           (\<forall>cp \<in> set (code_points ptr len i). cp \<noteq> 0x22 \<and> \<not> isUnprintable env cp \<longrightarrow> cp < 0x80)"
  shows "sa_loop env ptr len i s =
         Returned (s\<lparr>file_f := file_f s @ concat (map (sa_piece env) (code_points ptr len i))\<rparr>)"
  using assms
proof (induction "nat (len - int i)" arbitrary: i s rule: less_induct)
  case less
  show ?case
  proof (cases "int i < len")
    case False
    then show ?thesis
      by (subst sa_loop.simps, subst code_points.simps) simp
  next
    case True
    obtain i' cp where nx: "U16_NEXT ptr i len = (i', cp)"
      by (cases "U16_NEXT ptr i len")
    then have adv: "i < i'"
      by (rule U16_NEXT_advances)
    have cps: "code_points ptr len i = cp # code_points ptr len i'"
      using True nx by (subst code_points.simps) simp
    have ok: "\<not> (cp \<noteq> 0x22 \<and> \<not> isUnprintable env cp \<and> U_DEBUG env \<and> \<not> cp < 0x80)"
      using less.prems cps by auto
    have rest: "U_DEBUG env \<longrightarrow>
           (\<forall>c \<in> set (code_points ptr len i'). c \<noteq> 0x22 \<and> \<not> isUnprintable env c \<longrightarrow> c < 0x80)"
      using less.prems cps by auto
    have "sa_loop env ptr len i s =
          sa_loop env ptr len i' (s\<lparr>file_f := file_f s @ sa_piece env cp\<rparr>)"
      using True nx ok by (subst sa_loop.simps) auto
    also have "\<dots> = Returned ((s\<lparr>file_f := file_f s @ sa_piece env cp\<rparr>)
                 \<lparr>file_f := file_f (s\<lparr>file_f := file_f s @ sa_piece env cp\<rparr>) @
                    concat (map (sa_piece env) (code_points ptr len i'))\<rparr>)"
      using True adv rest by (intro less.hyps) auto
    also have "\<dots> = Returned (s\<lparr>file_f := file_f s @
                    concat (map (sa_piece env) (code_points ptr len i))\<rparr>)"
      by (simp add: cps)
    finally show ?thesis .
  qed
qed

lemma usrc_writeStringAsASCII_text:
  assumes "U_DEBUG env \<longrightarrow>
           (\<forall>cp \<in> set (code_points ptr len 0). cp \<noteq> 0x22 \<and> \<not> isUnprintable env cp \<longrightarrow> cp < 0x80)"
  shows "usrc_writeStringAsASCII env s ptr len syntax =
         Returned (s\<lparr>file_f := file_f s @ [CHR 0x22] @
                       concat (map (sa_piece env) (code_points ptr len 0)) @ [CHR 0x22]\<rparr>)"
  unfolding usrc_writeStringAsASCII_def sa_loop_text [OF assms]
  by (simp add: io_printf_def fprintf_def c_format_quote)

lemma code_points_nonneg: "cp \<in> set (code_points ptr len i) \<Longrightarrow> 0 \<le> cp"
proof (induction "nat (len - int i)" arbitrary: i rule: less_induct)
  case less
  show ?case
  proof (cases "int i < len")
    case False
    with less.prems show ?thesis
      by (subst (asm) code_points.simps) simp
  next
    case True
    obtain i' c where nx: "U16_NEXT ptr i len = (i', c)"
      by (cases "U16_NEXT ptr i len")
    then have adv: "i < i'"
      by (rule U16_NEXT_advances)
    have cps: "code_points ptr len i = c # code_points ptr len i'"
      using True nx by (subst code_points.simps) simp
    have c0: "0 \<le> c"
      using nx
      by (auto simp: U16_NEXT_def Let_def U16_IS_LEAD_def U16_IS_TRAIL_def U16_GET_SUPPLEMENTARY_def
          split: if_splits)
    show ?thesis
    proof (cases "cp = c")
      case True
      with c0 show ?thesis
        by simp
    next
      case False
      with less.prems cps have "cp \<in> set (code_points ptr len i')"
        by simp
      moreover have "nat (len - int i') < nat (len - int i)"
        using True adv by simp
      ultimately show ?thesis
        by (rule less.hyps [rotated])
    qed
  qed
qed

text \<open>A text made of pieces that are the escape or hold no quote has no bare quote.\<close>

lemma pieces_no_bare_quote:
  assumes "\<forall>x \<in> set ps. x = [CHR 0x5C, CHR 0x22] \<or> CHR 0x22 \<notin> set x"
  shows "\<forall>j < length (concat ps). concat ps ! j = CHR 0x22 \<longrightarrow>
           0 < j \<and> concat ps ! (j - 1) = CHR 0x5C"
  using assms
proof (induction ps)
  case Nil
  show ?case
    by simp
next
  case (Cons x ps)
  then have IH: "\<forall>j < length (concat ps). concat ps ! j = CHR 0x22 \<longrightarrow>
           0 < j \<and> concat ps ! (j - 1) = CHR 0x5C"
    by simp
  from Cons.prems have x: "x = [CHR 0x5C, CHR 0x22] \<or> CHR 0x22 \<notin> set x"
    by simp
  show ?case
  proof (intro allI impI)
    fix j
    assume j: "j < length (concat (x # ps))" and q: "concat (x # ps) ! j = CHR 0x22"
    show "0 < j \<and> concat (x # ps) ! (j - 1) = CHR 0x5C"
    proof (cases "j < length x")
      case True
      then have xj: "x ! j = CHR 0x22"
        using q by (simp add: nth_append)
      then have "CHR 0x22 \<in> set x"
        using True by (metis nth_mem)
      with x have x2: "x = [CHR 0x5C, CHR 0x22]"
        by blast
      with True xj have "j = 1"
        by (cases j) auto
      then show ?thesis
        by (simp add: x2)
    next
      case False
      then have ge: "length x \<le> j"
        by simp
      then have q': "concat ps ! (j - length x) = CHR 0x22"
        using q by (simp add: nth_append)
      have lt: "j - length x < length (concat ps)"
        using j ge by simp
      from IH lt q' have pos: "0 < j - length x" and b: "concat ps ! (j - length x - 1) = CHR 0x5C"
        by auto
      have "\<not> j - 1 < length x"
        using pos by simp
      then have "concat (x # ps) ! (j - 1) = concat ps ! (j - 1 - length x)"
        by (simp add: nth_append)
      also have "j - 1 - length x = j - length x - 1"
        by simp
      finally show ?thesis
        using pos b by simp
    qed
  qed
qed

lemma char_of_not_quote:
  assumes "0 \<le> (cp :: int)" "cp < 0x80" "cp \<noteq> 0x22"
  shows "char_of cp \<noteq> CHR 0x22"
proof
  assume "char_of cp = CHR 0x22"
  then have "(of_char (char_of cp :: char) :: int) = of_char (CHR 0x22)"
    by simp
  then have "cp mod 256 = 0x22"
    by simp
  moreover have "cp mod 256 = cp"
    using assms by (intro mod_pos_pos_trivial) simp_all
  ultimately show False
    using assms(3) by simp
qed

lemma sa_piece_escaped_or_clean:
  assumes "\<forall>c. 0x80 \<le> c \<longrightarrow> isUnprintable env c"
    and "\<forall>c. CHR 0x22 \<notin> set (escapeUnprintable env c)"
    and "0 \<le> cp"
  shows "sa_piece env cp = [CHR 0x5C, CHR 0x22] \<or> CHR 0x22 \<notin> set (sa_piece env cp)"
proof (cases "cp = 0x22")
  case True
  then show ?thesis
    by (simp add: sa_piece_quote)
next
  case nq: False
  show ?thesis
  proof (cases "isUnprintable env cp")
    case True
    with nq assms(2) show ?thesis
      by (simp add: sa_piece_unprintable)
  next
    case False
    with assms(1) have small: "cp < 0x80"
      by (meson not_le)
    then have "cp mod 256 = cp"
      using assms(3) by (intro mod_pos_pos_trivial) simp_all
    moreover have "char_of cp \<noteq> CHR 0x22"
      using assms(3) small nq by (rule char_of_not_quote)
    ultimately show ?thesis
      using nq False by (simp add: sa_piece_plain)
  qed
qed
lemma code_points_abc:
  assumes "ptr 0 = 0x61" "ptr 1 = 0x62" "ptr 2 = 0x63"
  shows "code_points ptr 3 0 = [0x61, 0x62, 0x63]"
proof -
  have p1: "ptr (Suc 0) = 0x62" and p2: "ptr (Suc (Suc 0)) = 0x63"
    using assms by (simp_all add: numeral_2_eq_2)
  have 3: "code_points ptr 3 (Suc (Suc (Suc 0))) = []"
    by (subst code_points.simps) simp
  have 2: "code_points ptr 3 (Suc (Suc 0)) = [0x63]"
    by (subst code_points.simps) (simp add: U16_NEXT_def U16_IS_LEAD_def Let_def p2 3)
  have 1: "code_points ptr 3 (Suc 0) = [0x62, 0x63]"
    by (subst code_points.simps) (simp add: U16_NEXT_def U16_IS_LEAD_def Let_def p1 2)
  show ?thesis
    by (subst code_points.simps) (simp add: U16_NEXT_def U16_IS_LEAD_def Let_def assms(1) 1)
qed

lemma abc_chars: "char_of (0x61 :: int) = CHR ''a''" "char_of (0x62 :: int) = CHR ''b''"
  "char_of (0x63 :: int) = CHR ''c''"
  by code_simp+

text \<open>
  Claim C9. Whenever the call returns, which it does unless an assertion build meets a
  code point of \<^verbatim>\<open>0x80\<close> or more that the classifier calls printable, the String Escaper
  writes a double quote, one piece per decoded code point, and a double quote; the piece
  of a double quote is backslash and quote, whatever the classifier says. With a
  classifier that calls every code point from \<^verbatim>\<open>0x80\<close> up unprintable and an escaper whose
  output holds no double quote, every double quote between the two outer ones stands
  right after a backslash. The three units of \<^verbatim>\<open>abc\<close>, when the classifier calls them
  printable, give exactly the five characters of the quoted \<^verbatim>\<open>abc\<close>.
\<close>

theorem string_escaper_quotes:
  "((U_DEBUG env \<longrightarrow>
       (\<forall>cp \<in> set (code_points ptr len 0). cp \<noteq> 0x22 \<and> \<not> isUnprintable env cp \<longrightarrow> cp < 0x80)) \<longrightarrow>
     usrc_writeStringAsASCII env s ptr len syntax =
       Returned (s\<lparr>file_f := file_f s @ [CHR 0x22] @
                     concat (map (sa_piece env) (code_points ptr len 0)) @ [CHR 0x22]\<rparr>)) \<and>
   sa_piece env 0x22 = [CHR 0x5C, CHR 0x22] \<and>
   ((\<forall>c. 0x80 \<le> c \<longrightarrow> isUnprintable env c) \<and> (\<forall>c. CHR 0x22 \<notin> set (escapeUnprintable env c)) \<longrightarrow>
     (\<forall>j < length (concat (map (sa_piece env) (code_points ptr len 0))).
        concat (map (sa_piece env) (code_points ptr len 0)) ! j = CHR 0x22 \<longrightarrow>
        0 < j \<and> concat (map (sa_piece env) (code_points ptr len 0)) ! (j - 1) = CHR 0x5C)) \<and>
   (ptr 0 = 0x61 \<and> ptr 1 = 0x62 \<and> ptr 2 = 0x63 \<and>
    \<not> isUnprintable env 0x61 \<and> \<not> isUnprintable env 0x62 \<and> \<not> isUnprintable env 0x63 \<longrightarrow>
     usrc_writeStringAsASCII env s ptr 3 syntax =
       Returned (s\<lparr>file_f := file_f s @ [CHR 0x22] @ ''abc'' @ [CHR 0x22]\<rparr>))"
proof (intro conjI impI)
  assume "U_DEBUG env \<longrightarrow>
       (\<forall>cp \<in> set (code_points ptr len 0). cp \<noteq> 0x22 \<and> \<not> isUnprintable env cp \<longrightarrow> cp < 0x80)"
  then show "usrc_writeStringAsASCII env s ptr len syntax =
       Returned (s\<lparr>file_f := file_f s @ [CHR 0x22] @
                     concat (map (sa_piece env) (code_points ptr len 0)) @ [CHR 0x22]\<rparr>)"
    by (rule usrc_writeStringAsASCII_text)
next
  show "sa_piece env 0x22 = [CHR 0x5C, CHR 0x22]"
    by (rule sa_piece_quote)
next
  assume d: "(\<forall>c. 0x80 \<le> c \<longrightarrow> isUnprintable env c) \<and>
             (\<forall>c. CHR 0x22 \<notin> set (escapeUnprintable env c))"
  have "\<forall>x \<in> set (map (sa_piece env) (code_points ptr len 0)).
          x = [CHR 0x5C, CHR 0x22] \<or> CHR 0x22 \<notin> set x"
  proof
    fix x
    assume "x \<in> set (map (sa_piece env) (code_points ptr len 0))"
    then obtain cp where cp: "cp \<in> set (code_points ptr len 0)" and x: "x = sa_piece env cp"
      by auto
    from cp have "0 \<le> cp"
      by (rule code_points_nonneg)
    with d show "x = [CHR 0x5C, CHR 0x22] \<or> CHR 0x22 \<notin> set x"
      unfolding x by (intro sa_piece_escaped_or_clean) blast+
  qed
  then show "\<forall>j < length (concat (map (sa_piece env) (code_points ptr len 0))).
        concat (map (sa_piece env) (code_points ptr len 0)) ! j = CHR 0x22 \<longrightarrow>
        0 < j \<and> concat (map (sa_piece env) (code_points ptr len 0)) ! (j - 1) = CHR 0x5C"
    by (rule pieces_no_bare_quote)
next
  assume a: "ptr 0 = 0x61 \<and> ptr 1 = 0x62 \<and> ptr 2 = 0x63 \<and>
    \<not> isUnprintable env 0x61 \<and> \<not> isUnprintable env 0x62 \<and> \<not> isUnprintable env 0x63"
  then have cps: "code_points ptr 3 0 = [0x61, 0x62, 0x63]"
    by (intro code_points_abc) simp_all
  have "U_DEBUG env \<longrightarrow>
       (\<forall>cp \<in> set (code_points ptr 3 0). cp \<noteq> 0x22 \<and> \<not> isUnprintable env cp \<longrightarrow> cp < 0x80)"
    by (simp add: cps)
  then have "usrc_writeStringAsASCII env s ptr 3 syntax =
       Returned (s\<lparr>file_f := file_f s @ [CHR 0x22] @
                     concat (map (sa_piece env) (code_points ptr 3 0)) @ [CHR 0x22]\<rparr>)"
    by (rule usrc_writeStringAsASCII_text)
  moreover have "concat (map (sa_piece env) (code_points ptr 3 0)) = ''abc''"
    using a by (simp add: cps sa_piece_plain abc_chars)
  ultimately show "usrc_writeStringAsASCII env s ptr 3 syntax =
       Returned (s\<lparr>file_f := file_f s @ [CHR 0x22] @ ''abc'' @ [CHR 0x22]\<rparr>)"
    by simp
qed

text \<open>
  A sample of the outside parameters: assertions on, the classifier that calls everything
  outside \<^verbatim>\<open>0x20..0x7E\<close> unprintable, and an escaper that writes a backslash, \<^verbatim>\<open>u\<close> and
  hexadecimal digits.
\<close>

definition sample_icu :: icu where
  "sample_icu =
     \<lparr>U_DEBUG = True, isUnprintable = (\<lambda>c. \<not> (0x20 \<le> c \<and> c \<le> 0x7E)),
      escapeUnprintable = (\<lambda>c. CHR 0x5C # CHR ''u'' # hex_digits c)\<rparr>"

definition sample_units :: "nat \<Rightarrow> 16 word" where
  "sample_units i = [0x61, 0x22, 0x62, 0xE9] ! i"

definition abc_units :: "nat \<Rightarrow> 16 word" where
  "abc_units i = [0x61, 0x62, 0x63] ! i"

theorem string_escaper_quotes_witness:
  "usrc_writeStringAsASCII sample_icu \<lparr>file_f = [], file_stderr = []\<rparr> sample_units 4
      UPRV_TARGET_SYNTAX_TOML =
     Returned \<lparr>file_f = [CHR 0x22] @ ''a'' @ [CHR 0x5C, CHR 0x22] @ ''b'' @ [CHR 0x5C] @ ''ue9'' @
                         [CHR 0x22], file_stderr = []\<rparr> \<and>
   (''a'' @ [CHR 0x5C, CHR 0x22] @ ''b'' @ [CHR 0x5C] @ ''ue9'') ! (2 - 1) = CHR 0x5C \<and>
   usrc_writeStringAsASCII sample_icu \<lparr>file_f = [], file_stderr = []\<rparr> abc_units 3
      UPRV_TARGET_SYNTAX_TOML =
     Returned \<lparr>file_f = [CHR 0x22] @ ''abc'' @ [CHR 0x22], file_stderr = []\<rparr>"
proof -
  let ?s = "\<lparr>file_f = [], file_stderr = []\<rparr>"
  note inst = string_escaper_quotes
    [where env = sample_icu and ptr = sample_units and len = 4 and s = ?s]
  note abc = string_escaper_quotes
    [where env = sample_icu and ptr = abc_units and len = 3 and s = ?s]
  have cps: "code_points sample_units 4 0 = [0x61, 0x22, 0x62, 0xE9]"
    by code_simp
  have body: "concat (map (sa_piece sample_icu) [0x61, 0x22, 0x62, 0xE9]) =
              ''a'' @ [CHR 0x5C, CHR 0x22] @ ''b'' @ [CHR 0x5C] @ ''ue9''"
    by code_simp
  have na: "U_DEBUG sample_icu \<longrightarrow>
       (\<forall>cp \<in> set (code_points sample_units 4 0).
          cp \<noteq> 0x22 \<and> \<not> isUnprintable sample_icu cp \<longrightarrow> cp < 0x80)"
    by (simp add: cps sample_icu_def)
  have 1: "usrc_writeStringAsASCII sample_icu ?s sample_units 4 UPRV_TARGET_SYNTAX_TOML =
     Returned \<lparr>file_f = [CHR 0x22] @ ''a'' @ [CHR 0x5C, CHR 0x22] @ ''b'' @ [CHR 0x5C] @ ''ue9'' @
                         [CHR 0x22], file_stderr = []\<rparr>"
    using inst [THEN conjunct1, THEN mp, OF na] by (simp only: cps body) simp
  have d: "(\<forall>c. 0x80 \<le> c \<longrightarrow> isUnprintable sample_icu c) \<and>
           (\<forall>c. CHR 0x22 \<notin> set (escapeUnprintable sample_icu c))"
    using hex_digits_no_char [of "CHR 0x22"] by (simp add: sample_icu_def)
  have "\<forall>j < length (concat (map (sa_piece sample_icu) (code_points sample_units 4 0))).
        concat (map (sa_piece sample_icu) (code_points sample_units 4 0)) ! j = CHR 0x22 \<longrightarrow>
        0 < j \<and> concat (map (sa_piece sample_icu) (code_points sample_units 4 0)) ! (j - 1) = CHR 0x5C"
    using inst [THEN conjunct2, THEN conjunct2, THEN conjunct1, THEN mp, OF d] .
  then have 2: "(''a'' @ [CHR 0x5C, CHR 0x22] @ ''b'' @ [CHR 0x5C] @ ''ue9'') ! (2 - 1) = CHR 0x5C"
    unfolding cps body by (elim allE [of _ 2]) simp
  have h: "abc_units 0 = 0x61 \<and> abc_units 1 = 0x62 \<and> abc_units 2 = 0x63 \<and>
    \<not> isUnprintable sample_icu 0x61 \<and> \<not> isUnprintable sample_icu 0x62 \<and>
    \<not> isUnprintable sample_icu 0x63"
    by (simp add: abc_units_def sample_icu_def)
  have 3: "usrc_writeStringAsASCII sample_icu ?s abc_units 3 UPRV_TARGET_SYNTAX_TOML =
     Returned \<lparr>file_f = [CHR 0x22] @ ''abc'' @ [CHR 0x22], file_stderr = []\<rparr>"
    using abc [THEN conjunct2, THEN conjunct2, THEN conjunct2, THEN mp, OF h] by simp
  from 1 2 3 show ?thesis
    by simp
qed

section \<open>What the set serializer writes\<close>

text \<open>The text of the String Escaper for a string, and the lines of a range and a string.\<close>

definition sa_text :: "icu \<Rightarrow> 16 word list \<Rightarrow> string" where
  "sa_text env str =
     [CHR 0x22] @
     concat (map (sa_piece env) (code_points (\<lambda>i. str ! i) (int (length str)) 0)) @
     [CHR 0x22]"

definition us_range_line :: "int \<times> int \<Rightarrow> string" where
  "us_range_line r =
     ''  [0x'' @ hex_digits (fst r mod 2 ^ 32) @ '', 0x'' @ hex_digits (snd r mod 2 ^ 32) @ ''],\<newline>''"

definition us_string_line :: "icu \<Rightarrow> 16 word list \<Rightarrow> string" where
  "us_string_line env str = ''  '' @ sa_text env str @ '',\<newline>''"

text \<open>No assertion of a build with assertions fires on the string.\<close>

definition sa_returns :: "icu \<Rightarrow> 16 word list \<Rightarrow> bool" where
  "sa_returns env str =
     (U_DEBUG env \<longrightarrow>
        (\<forall>cp \<in> set (code_points (\<lambda>i. str ! i) (int (length str)) 0).
           cp \<noteq> 0x22 \<and> \<not> isUnprintable env cp \<longrightarrow> cp < 0x80))"

lemma usrc_writeStringAsASCII_sa_text:
  "sa_returns env str \<Longrightarrow>
   usrc_writeStringAsASCII env s (\<lambda>i. str ! i) (int (length str)) syn =
     Returned (s\<lparr>file_f := file_f s @ sa_text env str\<rparr>)"
  unfolding sa_returns_def sa_text_def by (rule usrc_writeStringAsASCII_text)

lemma us_range_format:
  "c_format ''  [0x%x, 0x%x],\<newline>'' [I a, I b] = us_range_line (a, b)"
  by (simp add: c_format_lit us_range_line_def)

lemma us_loop_ranges:
  "us_loop env syn (map (\<lambda>r. URange (fst r) (snd r)) rs @ rest) False s =
   us_loop env syn rest False (s\<lparr>file_f := file_f s @ concat (map us_range_line rs)\<rparr>)"
proof (induction rs arbitrary: s)
  case Nil
  show ?case
    by simp
next
  case (Cons r rs)
  show ?case
    by (simp add: Cons.IH io_printf_def fprintf_def us_range_format)
qed

lemma us_loop_strings_seen:
  "\<forall>str \<in> set ss. sa_returns env str \<Longrightarrow>
   us_loop env syn (map UString ss) True s =
     Returned (s\<lparr>file_f := file_f s @ concat (map (us_string_line env) ss)\<rparr>)"
proof (induction ss arbitrary: s)
  case Nil
  show ?case
    by simp
next
  case (Cons str ss)
  then have r: "sa_returns env str" and rest: "\<forall>x \<in> set ss. sa_returns env x"
    by simp_all
  show ?case
    by (simp add: usrc_writeStringAsASCII_sa_text [OF r] Cons.IH [OF rest] io_printf_def
        fprintf_def c_format_lit us_string_line_def)
qed

lemma us_loop_strings_first:
  assumes "\<forall>str \<in> set (str0 # ss). sa_returns env str"
  shows "us_loop env syn (map UString (str0 # ss)) False s =
     Returned (s\<lparr>file_f := file_f s @ '']\<newline>strings = [\<newline>'' @
                   concat (map (us_string_line env) (str0 # ss))\<rparr>)"
proof -
  from assms have r: "sa_returns env str0" and rest: "\<forall>x \<in> set ss. sa_returns env x"
    by simp_all
  show ?thesis
    by (simp add: usrc_writeStringAsASCII_sa_text [OF r] us_loop_strings_seen [OF rest]
        io_printf_def fprintf_def c_format_lit us_string_line_def)
qed

text \<open>
  Claim C4. For a set whose iterator yields the ranges \<open>rs\<close> and then the strings \<open>ss\<close>,
  \<^verbatim>\<open>usrc_writeUnicodeSet\<close> writes the comment line, opens the \<^verbatim>\<open>ranges\<close> list, writes every
  range as a pair of hexadecimal numbers, and, only when there is a string, closes the
  list and opens the \<^verbatim>\<open>strings\<close> list once, before the first string; every string is
  written as the String Escaper writes it; the open list is closed at the end. With no
  string there is no \<^verbatim>\<open>strings\<close> section. In a build with assertions the call returns when
  the syntax is the structured-config one and no string trips the assertion of the
  escaper; in a build without, always.
\<close>

theorem unicode_set_ranges_then_strings:
  assumes "U_DEBUG env \<longrightarrow> syn = UPRV_TARGET_SYNTAX_TOML"
    and "\<forall>str \<in> set ss. sa_returns env str"
  shows "usrc_writeUnicodeSet env s (map (\<lambda>r. URange (fst r) (snd r)) rs @ map UString ss) syn =
           Returned (s\<lparr>file_f := file_f s @
             ''# Inclusive ranges of the code points in the set.\<newline>'' @
             ''ranges = [\<newline>'' @
             concat (map (\<lambda>r. ''  [0x'' @ hex_digits (fst r mod 2 ^ 32) @ '', 0x'' @
                               hex_digits (snd r mod 2 ^ 32) @ ''],\<newline>'') rs) @
             (if ss = [] then []
              else '']\<newline>strings = [\<newline>'' @
                   concat (map (\<lambda>str. ''  '' @ sa_text env str @ '',\<newline>'') ss)) @
             '']\<newline>''\<rparr>) \<and>
         (\<forall>str \<in> set ss. \<forall>s0.
            usrc_writeStringAsASCII env s0 (\<lambda>i. str ! i) (int (length str)) syn =
              Returned (s0\<lparr>file_f := file_f s0 @ sa_text env str\<rparr>))"
proof (intro conjI ballI allI)
  let ?s1 = "s\<lparr>file_f := file_f s @ ''# Inclusive ranges of the code points in the set.\<newline>'' @
               ''ranges = [\<newline>''\<rparr>"
  let ?s2 = "?s1\<lparr>file_f := file_f ?s1 @ concat (map us_range_line rs)\<rparr>"
  have go: "\<not> (U_DEBUG env \<and> syn \<noteq> UPRV_TARGET_SYNTAX_TOML)"
    using assms(1) by blast
  have lines: "us_range_line = (\<lambda>r. ''  [0x'' @ hex_digits (fst r mod 2 ^ 32) @ '', 0x'' @
                               hex_digits (snd r mod 2 ^ 32) @ ''],\<newline>'')"
    "us_string_line env = (\<lambda>str. ''  '' @ sa_text env str @ '',\<newline>'')"
    by (simp_all add: fun_eq_iff us_range_line_def us_string_line_def)
  have loop: "us_loop env syn (map (\<lambda>r. URange (fst r) (snd r)) rs @ map UString ss) False ?s1 =
        Returned (?s2\<lparr>file_f := file_f ?s2 @
          (if ss = [] then []
           else '']\<newline>strings = [\<newline>'' @ concat (map (us_string_line env) ss))\<rparr>)"
  proof (cases ss)
    case Nil
    then show ?thesis
      using us_loop_ranges [of env syn rs "[]" ?s1] by simp
  next
    case (Cons str0 ss')
    have "us_loop env syn (map UString (str0 # ss')) False ?s2 =
          Returned (?s2\<lparr>file_f := file_f ?s2 @ '']\<newline>strings = [\<newline>'' @
                   concat (map (us_string_line env) (str0 # ss'))\<rparr>)"
      using assms(2) unfolding Cons by (rule us_loop_strings_first)
    then show ?thesis
      unfolding Cons us_loop_ranges by simp
  qed
  show "usrc_writeUnicodeSet env s (map (\<lambda>r. URange (fst r) (snd r)) rs @ map UString ss) syn =
           Returned (s\<lparr>file_f := file_f s @
             ''# Inclusive ranges of the code points in the set.\<newline>'' @
             ''ranges = [\<newline>'' @
             concat (map (\<lambda>r. ''  [0x'' @ hex_digits (fst r mod 2 ^ 32) @ '', 0x'' @
                               hex_digits (snd r mod 2 ^ 32) @ ''],\<newline>'') rs) @
             (if ss = [] then []
              else '']\<newline>strings = [\<newline>'' @
                   concat (map (\<lambda>str. ''  '' @ sa_text env str @ '',\<newline>'') ss)) @
             '']\<newline>''\<rparr>)"
  proof -
    have "usrc_writeUnicodeSet env s (map (\<lambda>r. URange (fst r) (snd r)) rs @ map UString ss) syn =
          (case us_loop env syn (map (\<lambda>r. URange (fst r) (snd r)) rs @ map UString ss) False ?s1 of
             Aborted s' \<Rightarrow> Aborted s'
           | Returned s' \<Rightarrow> Returned (io_printf s' '']\<newline>'' []))"
      unfolding usrc_writeUnicodeSet_def if_not_P [OF go] Let_def
      by (simp add: io_printf_def fprintf_def c_format_lit)
    then show ?thesis
      unfolding loop lines by (simp add: io_printf_def fprintf_def c_format_lit)
  qed
next
  fix str s0
  assume "str \<in> set ss"
  with assms(2) have "sa_returns env str"
    by blast
  then show "usrc_writeStringAsASCII env s0 (\<lambda>i. str ! i) (int (length str)) syn =
              Returned (s0\<lparr>file_f := file_f s0 @ sa_text env str\<rparr>)"
    by (rule usrc_writeStringAsASCII_sa_text)
qed
theorem unicode_set_ranges_then_strings_witness:
  "usrc_writeUnicodeSet sample_icu \<lparr>file_f = [], file_stderr = []\<rparr>
      [URange 0x41 0x5A, URange 0x61 0x7A, UString [0x63, 0x68]] UPRV_TARGET_SYNTAX_TOML =
     Returned \<lparr>file_f =
        ''# Inclusive ranges of the code points in the set.\<newline>'' @
        ''ranges = [\<newline>  [0x41, 0x5a],\<newline>  [0x61, 0x7a],\<newline>]\<newline>'' @
        ''strings = [\<newline>  '' @ [CHR 0x22] @ ''ch'' @ [CHR 0x22] @ '',\<newline>]\<newline>'',
        file_stderr = []\<rparr> \<and>
   usrc_writeUnicodeSet sample_icu \<lparr>file_f = [], file_stderr = []\<rparr>
      [URange 0x41 0x5A, URange 0x61 0x7A] UPRV_TARGET_SYNTAX_TOML =
     Returned \<lparr>file_f =
        ''# Inclusive ranges of the code points in the set.\<newline>'' @
        ''ranges = [\<newline>  [0x41, 0x5a],\<newline>  [0x61, 0x7a],\<newline>]\<newline>'',
        file_stderr = []\<rparr>"
proof -
  let ?s = "\<lparr>file_f = [], file_stderr = []\<rparr>"
  let ?rs = "[(0x41, 0x5A), (0x61, 0x7A)] :: (int \<times> int) list"
  let ?ss = "[[0x63, 0x68]] :: 16 word list list"
  have dbg: "U_DEBUG sample_icu \<longrightarrow> UPRV_TARGET_SYNTAX_TOML = UPRV_TARGET_SYNTAX_TOML"
    by simp
  have ok: "\<forall>str \<in> set ?ss. sa_returns sample_icu str"
    by code_simp
  have none: "\<forall>str \<in> set ([] :: 16 word list list). sa_returns sample_icu str"
    by simp
  have lines: "concat (map (\<lambda>r. ''  [0x'' @ hex_digits (fst r mod 2 ^ 32) @ '', 0x'' @
                               hex_digits (snd r mod 2 ^ 32) @ ''],\<newline>'') ?rs) =
               ''  [0x41, 0x5a],\<newline>  [0x61, 0x7a],\<newline>''"
    by code_simp
  have str: "sa_text sample_icu [0x63, 0x68] = [CHR 0x22] @ ''ch'' @ [CHR 0x22]"
    by code_simp
  have 1: "usrc_writeUnicodeSet sample_icu ?s
      [URange 0x41 0x5A, URange 0x61 0x7A, UString [0x63, 0x68]] UPRV_TARGET_SYNTAX_TOML =
     Returned \<lparr>file_f =
        ''# Inclusive ranges of the code points in the set.\<newline>'' @
        ''ranges = [\<newline>  [0x41, 0x5a],\<newline>  [0x61, 0x7a],\<newline>]\<newline>'' @
        ''strings = [\<newline>  '' @ [CHR 0x22] @ ''ch'' @ [CHR 0x22] @ '',\<newline>]\<newline>'',
        file_stderr = []\<rparr>"
    using unicode_set_ranges_then_strings [OF dbg ok, of ?s ?rs, THEN conjunct1]
    unfolding lines by (simp add: str)
  have 2: "usrc_writeUnicodeSet sample_icu ?s
      [URange 0x41 0x5A, URange 0x61 0x7A] UPRV_TARGET_SYNTAX_TOML =
     Returned \<lparr>file_f =
        ''# Inclusive ranges of the code points in the set.\<newline>'' @
        ''ranges = [\<newline>  [0x41, 0x5a],\<newline>  [0x61, 0x7a],\<newline>]\<newline>'',
        file_stderr = []\<rparr>"
    using unicode_set_ranges_then_strings [OF dbg none, of ?s ?rs, THEN conjunct1]
    unfolding lines by simp
  from 1 2 show ?thesis
    by simp
qed

section \<open>What the map serializer writes\<close>

text \<open>
  \<open>ranges_cover rs lo hi\<close>: the ranges \<open>rs\<close>, in their order, start at \<open>lo\<close>, each starts
  right after the one before ends, none is empty, and the last ends at \<open>hi\<close>.
\<close>

fun ranges_cover :: "(int \<times> int \<times> 32 word) list \<Rightarrow> int \<Rightarrow> int \<Rightarrow> bool" where
  "ranges_cover [] lo hi = (lo = hi + 1)"
| "ranges_cover ((a, b, v) # rs) lo hi = (a = lo \<and> a \<le> b \<and> b \<le> hi \<and> ranges_cover rs (b + 1) hi)"

definition um_line :: "(32 word \<Rightarrow> string) option \<Rightarrow> int \<times> int \<times> 32 word \<Rightarrow> string" where
  "um_line valueNameGetter r = um_entry valueNameGetter (fst r) (fst (snd r)) (snd (snd r))"

lemma uint32_mod32: "uint (w :: 32 word) mod 4294967296 = uint w"
proof -
  have "uint w < 2 ^ 32"
    using uint_lt2p [of w] by simp
  then show ?thesis
    by (simp add: mod_pos_pos_trivial)
qed

lemma um_entry_plain:
  "um_entry None a b v =
     ''  {a=0x'' @ hex_digits (a mod 2 ^ 32) @ '', b=0x'' @ hex_digits (b mod 2 ^ 32) @
     '', v='' @ dec_digits (uint v) @ ''},\<newline>''"
  by (simp add: um_entry_def c_format_lit uint32_mod32)

lemma um_entry_named:
  "um_entry (Some getName) a b v =
     ''  {a=0x'' @ hex_digits (a mod 2 ^ 32) @ '', b=0x'' @ hex_digits (b mod 2 ^ 32) @
     '', v='' @ dec_digits (uint v) @ '', name='' @ [CHR 0x22] @ getName v @ [CHR 0x22] @ ''},\<newline>''"
  by (simp add: um_entry_def c_format_lit uint32_mod32)

lemma ranges_before_none:
  "ranges_cover rs lo hi \<Longrightarrow> c < lo \<Longrightarrow> filter (\<lambda>r. fst r \<le> c \<and> c \<le> fst (snd r)) rs = []"
proof (induction rs arbitrary: lo)
  case Nil
  show ?case
    by simp
next
  case (Cons r rs)
  obtain a b v where r: "r = (a, b, v)"
    by (cases r)
  from Cons.prems have "a = lo" "a \<le> b" "ranges_cover rs (b + 1) hi"
    by (simp_all add: r)
  moreover from this Cons.prems have "c < b + 1"
    by simp
  ultimately show ?case
    using Cons.prems Cons.IH [of "b + 1"] by (simp add: r)
qed

lemma ranges_cover_once:
  "ranges_cover rs lo hi \<Longrightarrow> lo \<le> c \<Longrightarrow> c \<le> hi \<Longrightarrow>
   length (filter (\<lambda>r. fst r \<le> c \<and> c \<le> fst (snd r)) rs) = 1"
proof (induction rs arbitrary: lo)
  case Nil
  then show ?case
    by simp
next
  case (Cons r rs)
  obtain a b v where r: "r = (a, b, v)"
    by (cases r)
  from Cons.prems have a: "a = lo" and ab: "a \<le> b" and rest: "ranges_cover rs (b + 1) hi"
    by (simp_all add: r)
  show ?case
  proof (cases "c \<le> b")
    case True
    then have "c < b + 1"
      by simp
    with rest have "filter (\<lambda>r. fst r \<le> c \<and> c \<le> fst (snd r)) rs = []"
      by (rule ranges_before_none)
    with True a Cons.prems show ?thesis
      by (simp add: r)
  next
    case False
    then have "b + 1 \<le> c"
      by simp
    with rest Cons.prems have "length (filter (\<lambda>r. fst r \<le> c \<and> c \<le> fst (snd r)) rs) = 1"
      by (intro Cons.IH [of "b + 1"]) simp_all
    with False show ?thesis
      by (simp add: r)
  qed
qed

text \<open>
  The contract of the range query: from a code point the range ends at that code point
  or later, inside the code point space; from \<^verbatim>\<open>0x110000\<close>, where the loop arrives after the
  last range, the end is negative.
\<close>

definition ucpmap_contract :: "UCPMap \<Rightarrow> bool" where
  "ucpmap_contract pMap =
     ((\<forall>c. 0 \<le> c \<and> c \<le> 0x10FFFF \<longrightarrow> c \<le> fst (pMap c) \<and> fst (pMap c) \<le> 0x10FFFF) \<and>
      fst (pMap 0x110000) < 0)"

lemma um_loop_covers:
  assumes "ucpmap_contract pMap"
  shows "0 \<le> start \<Longrightarrow> start \<le> 0x110000 \<Longrightarrow>
         \<exists>rs. um_loop pMap valueNameGetter start s =
                Some (s\<lparr>file_f := file_f s @ concat (map (um_line valueNameGetter) rs)\<rparr>) \<and>
              ranges_cover rs start 0x10FFFF \<and>
              (\<forall>r \<in> set rs. pMap (fst r) = snd r)"
proof (induction "nat (0x110000 - start)" arbitrary: start s rule: less_induct)
  case less
  obtain e v where q: "pMap start = (e, v)"
    by (cases "pMap start")
  show ?case
  proof (cases "start = 0x110000")
    case True
    with assms q have "e < 0"
      by (auto simp: ucpmap_contract_def)
    then have "um_loop pMap valueNameGetter start s = Some s"
      using q by (subst um_loop.simps) simp
    then have "um_loop pMap valueNameGetter start s =
                Some (s\<lparr>file_f := file_f s @ concat (map (um_line valueNameGetter) [])\<rparr>) \<and>
              ranges_cover [] start 0x10FFFF \<and> (\<forall>r \<in> set []. pMap (fst r) = snd r)"
      using True by simp
    then show ?thesis
      by blast
  next
    case False
    with less.prems have le: "start \<le> 0x10FFFF"
      by simp
    with assms less.prems(1) q have e: "start \<le> e" "e \<le> 0x10FFFF"
      by (auto simp: ucpmap_contract_def)
    let ?s = "s\<lparr>file_f := file_f s @ um_entry valueNameGetter start e v\<rparr>"
    have step: "um_loop pMap valueNameGetter start s = um_loop pMap valueNameGetter (e + 1) ?s"
      using q e less.prems(1) by (subst um_loop.simps) simp
    have "\<exists>rs. um_loop pMap valueNameGetter (e + 1) ?s =
                Some (?s\<lparr>file_f := file_f ?s @ concat (map (um_line valueNameGetter) rs)\<rparr>) \<and>
              ranges_cover rs (e + 1) 0x10FFFF \<and>
              (\<forall>r \<in> set rs. pMap (fst r) = snd r)"
      using e less.prems(1) by (intro less.hyps) simp_all
    then obtain rs where
      l: "um_loop pMap valueNameGetter (e + 1) ?s =
            Some (?s\<lparr>file_f := file_f ?s @ concat (map (um_line valueNameGetter) rs)\<rparr>)"
      and c: "ranges_cover rs (e + 1) 0x10FFFF"
      and m: "\<forall>r \<in> set rs. pMap (fst r) = snd r"
      by blast
    have "um_loop pMap valueNameGetter start s =
            Some (s\<lparr>file_f := file_f s @ concat (map (um_line valueNameGetter) ((start, e, v) # rs))\<rparr>)"
      unfolding step l by (simp add: um_line_def)
    moreover have "ranges_cover ((start, e, v) # rs) start 0x10FFFF"
      using e c by simp
    moreover have "\<forall>r \<in> set ((start, e, v) # rs). pMap (fst r) = snd r"
      using m q by simp
    ultimately show ?thesis
      by blast
  qed
qed

text \<open>
  Claim C3. For a map that honours the contract of its range query, \<^verbatim>\<open>usrc_writeUCPMap\<close>
  returns (in a build with assertions, when the syntax is the structured-config one). It
  writes the comment line, opens the list, writes one entry per range got, and closes the
  list. The ranges are those the query returns, in order: the first starts at code point
  0, each next one starts at the end of the one before plus one, and the last ends at
  \<^verbatim>\<open>0x10FFFF\<close>, after which the negative end stops the loop; so every code point lies in
  exactly one range written. An entry has the fields \<^verbatim>\<open>a\<close>, \<^verbatim>\<open>b\<close> and \<^verbatim>\<open>v\<close>, and a \<^verbatim>\<open>name\<close>
  field exactly when a name getter is given.
\<close>

theorem ucpmap_ranges_cover_code_space:
  assumes "ucpmap_contract pMap"
    and "U_DEBUG env \<longrightarrow> syn = UPRV_TARGET_SYNTAX_TOML"
  shows "\<exists>rs. usrc_writeUCPMap env s pMap valueNameGetter syn =
                Some (Returned (s\<lparr>file_f := file_f s @
                  ''# Code points `a` through `b` have value `v`, corresponding to `name`.\<newline>'' @
                  ''ranges = [\<newline>'' @
                  concat (map (\<lambda>r. um_entry valueNameGetter (fst r) (fst (snd r)) (snd (snd r))) rs) @
                  '']\<newline>''\<rparr>)) \<and>
              ranges_cover rs 0 0x10FFFF \<and>
              (\<forall>r \<in> set rs. pMap (fst r) = snd r) \<and>
              (\<forall>c. 0 \<le> c \<and> c \<le> 0x10FFFF \<longrightarrow>
                 length (filter (\<lambda>r. fst r \<le> c \<and> c \<le> fst (snd r)) rs) = 1) \<and>
              (\<forall>a b v. um_entry None a b v =
                 ''  {a=0x'' @ hex_digits (a mod 2 ^ 32) @ '', b=0x'' @ hex_digits (b mod 2 ^ 32) @
                 '', v='' @ dec_digits (uint v) @ ''},\<newline>'') \<and>
              (\<forall>getName a b v. um_entry (Some getName) a b v =
                 ''  {a=0x'' @ hex_digits (a mod 2 ^ 32) @ '', b=0x'' @ hex_digits (b mod 2 ^ 32) @
                 '', v='' @ dec_digits (uint v) @ '', name='' @ [CHR 0x22] @ getName v @
                 [CHR 0x22] @ ''},\<newline>'')"
proof -
  let ?s1 = "s\<lparr>file_f := file_f s @
               ''# Code points `a` through `b` have value `v`, corresponding to `name`.\<newline>'' @
               ''ranges = [\<newline>''\<rparr>"
  have go: "\<not> (U_DEBUG env \<and> syn \<noteq> UPRV_TARGET_SYNTAX_TOML)"
    using assms(2) by blast
  obtain rs where
    l: "um_loop pMap valueNameGetter 0 ?s1 =
          Some (?s1\<lparr>file_f := file_f ?s1 @ concat (map (um_line valueNameGetter) rs)\<rparr>)"
    and c: "ranges_cover rs 0 0x10FFFF"
    and m: "\<forall>r \<in> set rs. pMap (fst r) = snd r"
    using um_loop_covers [OF assms(1), of 0 valueNameGetter ?s1] by auto
  have line: "um_line valueNameGetter =
              (\<lambda>r. um_entry valueNameGetter (fst r) (fst (snd r)) (snd (snd r)))"
    by (simp add: fun_eq_iff um_line_def)
  have "usrc_writeUCPMap env s pMap valueNameGetter syn =
        (case um_loop pMap valueNameGetter 0 ?s1 of
           None \<Rightarrow> None
         | Some s' \<Rightarrow> Some (Returned (io_printf s' '']\<newline>'' [])))"
    unfolding usrc_writeUCPMap_def if_not_P [OF go] Let_def
    by (simp add: io_printf_def fprintf_def c_format_lit)
  then have out: "usrc_writeUCPMap env s pMap valueNameGetter syn =
                Some (Returned (s\<lparr>file_f := file_f s @
                  ''# Code points `a` through `b` have value `v`, corresponding to `name`.\<newline>'' @
                  ''ranges = [\<newline>'' @
                  concat (map (\<lambda>r. um_entry valueNameGetter (fst r) (fst (snd r)) (snd (snd r))) rs) @
                  '']\<newline>''\<rparr>))"
    unfolding l line by (simp add: io_printf_def fprintf_def c_format_lit)
  have once: "\<forall>c. 0 \<le> c \<and> c \<le> 0x10FFFF \<longrightarrow>
                 length (filter (\<lambda>r. fst r \<le> c \<and> c \<le> fst (snd r)) rs) = 1"
    using ranges_cover_once [OF c] by blast
  from out c m once um_entry_plain um_entry_named show ?thesis
    by blast
qed
text \<open>A sample map with two ranges: value 0 up to \<^verbatim>\<open>0x7F\<close>, value 1 from \<^verbatim>\<open>0x80\<close> on.\<close>

definition sample_map :: UCPMap where
  "sample_map c =
     (if 0 \<le> c \<and> c \<le> 0x7F then (0x7F, 0)
      else if 0x80 \<le> c \<and> c \<le> 0x10FFFF then (0x10FFFF, 1)
      else (- 1, 0))"

theorem ucpmap_ranges_cover_code_space_witness:
  "usrc_writeUCPMap sample_icu \<lparr>file_f = [], file_stderr = []\<rparr> sample_map None
      UPRV_TARGET_SYNTAX_TOML =
     Some (Returned \<lparr>file_f =
        ''# Code points `a` through `b` have value `v`, corresponding to `name`.\<newline>'' @
        ''ranges = [\<newline>'' @
        ''  {a=0x0, b=0x7f, v=0},\<newline>'' @
        ''  {a=0x80, b=0x10ffff, v=1},\<newline>'' @
        '']\<newline>'', file_stderr = []\<rparr>)"
proof -
  let ?s = "\<lparr>file_f = [], file_stderr = []\<rparr>"
  have contract: "ucpmap_contract sample_map"
    by (simp add: ucpmap_contract_def sample_map_def)
  have dbg: "U_DEBUG sample_icu \<longrightarrow> UPRV_TARGET_SYNTAX_TOML = UPRV_TARGET_SYNTAX_TOML"
    by simp
  obtain rs where
    out: "usrc_writeUCPMap sample_icu ?s sample_map None UPRV_TARGET_SYNTAX_TOML =
            Some (Returned (?s\<lparr>file_f := file_f ?s @
              ''# Code points `a` through `b` have value `v`, corresponding to `name`.\<newline>'' @
              ''ranges = [\<newline>'' @
              concat (map (\<lambda>r. um_entry None (fst r) (fst (snd r)) (snd (snd r))) rs) @
              '']\<newline>''\<rparr>))"
    and c: "ranges_cover rs 0 0x10FFFF"
    and m: "\<forall>r \<in> set rs. sample_map (fst r) = snd r"
    using ucpmap_ranges_cover_code_space [OF contract dbg, of ?s None] by blast
  obtain r1 rs1 where rs: "rs = r1 # rs1"
    using c by (cases rs) simp_all
  obtain a1 b1 v1 where r1: "r1 = (a1, b1, v1)"
    by (cases r1)
  have a1: "a1 = 0" and c1: "ranges_cover rs1 (b1 + 1) 0x10FFFF"
    using c by (simp_all add: rs r1)
  have "sample_map a1 = (b1, v1)"
    using m by (simp add: rs r1)
  then have b1: "b1 = 0x7F" and v1: "v1 = 0"
    by (simp_all add: a1 sample_map_def)
  obtain r2 rs2 where rs1: "rs1 = r2 # rs2"
    using c1 by (cases rs1) (simp_all add: b1)
  obtain a2 b2 v2 where r2: "r2 = (a2, b2, v2)"
    by (cases r2)
  have a2: "a2 = 0x80" and c2: "ranges_cover rs2 (b2 + 1) 0x10FFFF"
    using c1 by (simp_all add: rs1 r2 b1)
  have "sample_map a2 = (b2, v2)"
    using m by (simp add: rs rs1 r2)
  then have b2: "b2 = 0x10FFFF" and v2: "v2 = 1"
    by (simp_all add: a2 sample_map_def)
  have rs2: "rs2 = []"
  proof (cases rs2)
    case Nil
    then show ?thesis .
  next
    case (Cons r3 rs3)
    obtain a3 b3 v3 where "r3 = (a3, b3, v3)"
      by (cases r3)
    with c2 Cons have False
      by (auto simp: b2)
    then show ?thesis ..
  qed
  have whole: "rs = [(0, 0x7F, 0), (0x80, 0x10FFFF, 1)]"
    by (simp add: rs r1 a1 b1 v1 rs1 r2 a2 b2 v2 rs2)
  have body: "concat (map (\<lambda>r. um_entry None (fst r) (fst (snd r)) (snd (snd r)))
                [(0, 0x7F, 0), (0x80, 0x10FFFF, 1)]) =
              ''  {a=0x0, b=0x7f, v=0},\<newline>'' @ ''  {a=0x80, b=0x10ffff, v=1},\<newline>''"
    by code_simp
  show ?thesis
    using out unfolding whole body by simp
qed

end
